theory Spec2Isabelle
  imports Main "HOL-Library.AList"
begin

section \<open>JavaScript values\<close>

text \<open>
  Variables, results and cached payloads are JSON-like JavaScript values. Numbers are
  kept as integers; an object is the list of its own properties in insertion order.
\<close>

datatype json =
    JUndefined
  | JNull
  | JBool bool
  | JNum int
  | JStr string
  | JArr "json list"
  | JObj "(string \<times> json) list"

text \<open>Errors thrown by the code or by its collaborators, as values.\<close>

datatype exn =
    TypeError
  | ReferenceError
  | InvariantError
  | MissingUpdateFunction
  | StoreFailure
  | TransformFailure

subsection \<open>\<open>JSON.stringify\<close>\<close>

definition hex_digit :: "nat \<Rightarrow> char" where
  "hex_digit n = ''0123456789abcdef'' ! (n mod 16)"

definition quote_char :: "char \<Rightarrow> string" where
  "quote_char c =
     (if c = CHR 0x22 then [CHR 0x5C, CHR 0x22]
      else if c = CHR 0x5C then [CHR 0x5C, CHR 0x5C]
      else if c = CHR 0x08 then [CHR 0x5C, CHR ''b'']
      else if c = CHR 0x0C then [CHR 0x5C, CHR ''f'']
      else if c = CHR 0x0A then [CHR 0x5C, CHR ''n'']
      else if c = CHR 0x0D then [CHR 0x5C, CHR ''r'']
      else if c = CHR 0x09 then [CHR 0x5C, CHR ''t'']
      else if (of_char c :: nat) < 32
        then [CHR 0x5C, CHR ''u'', CHR ''0'', CHR ''0'',
              hex_digit (of_char c div 16), hex_digit (of_char c)]
      else [c])"

definition quote_string :: "string \<Rightarrow> string" where
  "quote_string s = [CHR 0x22] @ concat (map quote_char s) @ [CHR 0x22]"

fun nat_digits :: "nat \<Rightarrow> string" where
  "nat_digits n =
     (if n < 10 then [hex_digit n] else nat_digits (n div 10) @ [hex_digit (n mod 10)])"

definition int_digits :: "int \<Rightarrow> string" where
  "int_digits i = (if i < 0 then ''-'' @ nat_digits (nat (- i)) else nat_digits (nat i))"

fun join :: "string \<Rightarrow> string list \<Rightarrow> string" where
  "join sep [] = []"
| "join sep [x] = x"
| "join sep (x # y # ys) = x @ sep @ join sep (y # ys)"

text \<open>
  \<open>stringify v\<close> is \<open>JSON.stringify(v)\<close>; \<open>None\<close> is the JavaScript \<open>undefined\<close> it
  returns for an undefined value. A property whose value is undefined is left out of an
  object, and an undefined array element prints as \<open>null\<close>.
\<close>

fun stringify :: "json \<Rightarrow> string option"
  and stringify_elements :: "json list \<Rightarrow> string list"
  and stringify_properties :: "(string \<times> json) list \<Rightarrow> string list" where
  "stringify JUndefined = None"
| "stringify JNull = Some ''null''"
| "stringify (JBool b) = Some (if b then ''true'' else ''false'')"
| "stringify (JNum i) = Some (int_digits i)"
| "stringify (JStr s) = Some (quote_string s)"
| "stringify (JArr vs) = Some (''['' @ join '','' (stringify_elements vs) @ '']'')"
| "stringify (JObj ps) = Some (''{'' @ join '','' (stringify_properties ps) @ ''}'')"
| "stringify_elements [] = []"
| "stringify_elements (v # vs) =
     (case stringify v of None \<Rightarrow> ''null'' | Some s \<Rightarrow> s) # stringify_elements vs"
| "stringify_properties [] = []"
| "stringify_properties ((k, v) # ps) =
     (case stringify v of
        None \<Rightarrow> stringify_properties ps
      | Some s \<Rightarrow> (quote_string k @ '':'' @ s) # stringify_properties ps)"


section \<open>Operations, documents and cache keys\<close>

text \<open>
  Of a query document the link consumes the definitions, their kind, their optional name
  and, for eviction, the top-level selections. A field carries its name, its literal
  arguments and its own selections.
\<close>

datatype selection_node =
    Field string "(string \<times> json) list" "selection_node list"
  | FragmentSpread string
  | InlineFragment "selection_node list"

datatype operation_type = OpQuery | OpMutation | OpSubscription

datatype definition_node =
    OperationDefinition operation_type "string option" "selection_node list"
  | FragmentDefinition string "selection_node list"

type_synonym document = "definition_node list"

text \<open>A cached query payload is a JSON object: the list of its properties.\<close>

type_synonym data = "(string \<times> json) list"

record request_context =
  optimistic :: bool
  optimisticResponse :: json

record operation =
  op_query :: document
  op_variables :: json
  op_context :: request_context

text \<open>The cache key \<open>{ query, variables }\<close> built by \<open>createKey\<close>.\<close>

record cache_key =
  key_query :: document
  key_variables :: json

definition createKey :: "operation \<Rightarrow> cache_key" where
  "createKey operation =
     \<lparr>key_query = op_query operation, key_variables = op_variables operation\<rparr>"

subsection \<open>The document as the object \<open>JSON.stringify\<close> sees\<close>

definition name_json :: "string \<Rightarrow> json" where
  "name_json n = JObj [(''kind'', JStr ''Name''), (''value'', JStr n)]"

definition argument_json :: "string \<times> json \<Rightarrow> json" where
  "argument_json a =
     JObj [(''kind'', JStr ''Argument''), (''name'', name_json (fst a)), (''value'', snd a)]"

fun selection_json :: "selection_node \<Rightarrow> json" where
  "selection_json (Field n args sels) =
     JObj [(''kind'', JStr ''Field''), (''name'', name_json n),
           (''arguments'', JArr (map argument_json args)),
           (''selectionSet'',
              JObj [(''kind'', JStr ''SelectionSet''),
                    (''selections'', JArr (map selection_json sels))])]"
| "selection_json (FragmentSpread n) =
     JObj [(''kind'', JStr ''FragmentSpread''), (''name'', name_json n)]"
| "selection_json (InlineFragment sels) =
     JObj [(''kind'', JStr ''InlineFragment''),
           (''selectionSet'',
              JObj [(''kind'', JStr ''SelectionSet''),
                    (''selections'', JArr (map selection_json sels))])]"

definition operation_type_json :: "operation_type \<Rightarrow> json" where
  "operation_type_json t =
     (case t of OpQuery \<Rightarrow> JStr ''query'' | OpMutation \<Rightarrow> JStr ''mutation''
      | OpSubscription \<Rightarrow> JStr ''subscription'')"

definition definition_json :: "definition_node \<Rightarrow> json" where
  "definition_json d =
     (case d of
        OperationDefinition t n sels \<Rightarrow>
          JObj [(''kind'', JStr ''OperationDefinition''),
                (''operation'', operation_type_json t),
                (''name'', (case n of None \<Rightarrow> JUndefined | Some v \<Rightarrow> name_json v)),
                (''selectionSet'',
                   JObj [(''kind'', JStr ''SelectionSet''),
                         (''selections'', JArr (map selection_json sels))])]
      | FragmentDefinition n sels \<Rightarrow>
          JObj [(''kind'', JStr ''FragmentDefinition''), (''name'', name_json n),
                (''selectionSet'',
                   JObj [(''kind'', JStr ''SelectionSet''),
                         (''selections'', JArr (map selection_json sels))])])"

definition document_json :: "document \<Rightarrow> json" where
  "document_json doc =
     JObj [(''kind'', JStr ''Document''), (''definitions'', JArr (map definition_json doc))]"

text \<open>\<open>JSON.stringify(key)\<close> for a cache key: an object, so the result is a string.\<close>

definition key_stringify :: "cache_key \<Rightarrow> string" where
  "key_stringify key =
     ''{'' @ join '',''
       (stringify_properties
          [(''query'', document_json (key_query key)), (''variables'', key_variables key)])
     @ ''}''"

subsection \<open>Document utilities of the client library\<close>

definition is_operation :: "definition_node \<Rightarrow> bool" where
  "is_operation d = (case d of OperationDefinition _ _ _ \<Rightarrow> True | _ \<Rightarrow> False)"

text \<open>\<open>checkDocument\<close>: a document with more than one operation is refused.\<close>

definition checkDocument :: "document \<Rightarrow> exn + document" where
  "checkDocument doc =
     (if length (filter is_operation doc) \<le> 1 then Inr doc else Inl InvariantError)"

text \<open>
  \<open>getMainDefinition\<close>: of a checked document, the first operation definition, else
  the first fragment definition, else an error.
\<close>

definition getMainDefinition :: "document \<Rightarrow> exn + definition_node" where
  "getMainDefinition doc =
     (case checkDocument doc of
        Inl e \<Rightarrow> Inl e
      | Inr _ \<Rightarrow>
          (case find is_operation doc of
             Some d \<Rightarrow> Inr d
           | None \<Rightarrow> (case doc of [] \<Rightarrow> Inl InvariantError | d # _ \<Rightarrow> Inr d)))"

text \<open>
  \<open>getQueryDefinition\<close>: the operation definition of a checked document, which must
  be a query.
\<close>

definition getQueryDefinition :: "document \<Rightarrow> exn + definition_node" where
  "getQueryDefinition doc =
     (case checkDocument doc of
        Inl e \<Rightarrow> Inl e
      | Inr _ \<Rightarrow>
          (case find is_operation doc of
             Some (OperationDefinition OpQuery n sels) \<Rightarrow>
               Inr (OperationDefinition OpQuery n sels)
           | _ \<Rightarrow> Inl InvariantError))"

definition isField :: "selection_node \<Rightarrow> bool" where
  "isField sel = (case sel of Field _ _ _ \<Rightarrow> True | _ \<Rightarrow> False)"

definition field_name :: "selection_node \<Rightarrow> string" where
  "field_name sel = (case sel of Field n _ _ \<Rightarrow> n | FragmentSpread n \<Rightarrow> n | _ \<Rightarrow> [])"

definition selections_of :: "definition_node \<Rightarrow> selection_node list" where
  "selections_of d =
     (case d of OperationDefinition _ _ sels \<Rightarrow> sels | FragmentDefinition _ sels \<Rightarrow> sels)"

text \<open>\<open>definition.operation\<close>: undefined on a fragment definition.\<close>

definition operation_of :: "definition_node \<Rightarrow> operation_type option" where
  "operation_of d =
     (case d of OperationDefinition t _ _ \<Rightarrow> Some t | FragmentDefinition _ _ \<Rightarrow> None)"

text \<open>
  \<open>(definition && definition.name && definition.name.value) || ''\<close>: the name of the
  main definition, the empty string when it has none.
\<close>

definition operationName_of :: "definition_node \<Rightarrow> string" where
  "operationName_of d =
     (case d of
        OperationDefinition _ None _ \<Rightarrow> []
      | OperationDefinition _ (Some n) _ \<Rightarrow> n
      | FragmentDefinition n _ \<Rightarrow> n)"


section \<open>State of the link and its collaborators\<close>

text \<open>
  The underlying cache store is a collaborator: its state has type \<open>'s\<close> and its
  operations are passed in. A read does not change the store; a write, an eviction and a
  garbage collection return the store they leave behind, also when they fail.
  \<open>readQuery\<close> yields a payload, \<open>null\<close> (\<open>None\<close>) or an error. A payload is an
  object, so it is truthy: the tests \<open>!cachedQueryData\<close> and \<open>if (previousCachedState)\<close>
  of the link are tests for \<open>None\<close>.
\<close>

record 's cache_api =
  cache_readQuery :: "'s \<Rightarrow> cache_key \<Rightarrow> exn + data option"
  cache_writeQuery :: "'s \<Rightarrow> cache_key \<Rightarrow> data \<Rightarrow> exn option \<times> 's"
  cache_evict :: "'s \<Rightarrow> string \<Rightarrow> (exn + bool) \<times> 's"
  cache_gc :: "'s \<Rightarrow> exn option \<times> 's"
  policies_rootQueryTypename :: string
  policies_getStoreFieldName :: "string \<Rightarrow> string \<Rightarrow> selection_node \<Rightarrow> json \<Rightarrow> exn + string"

text \<open>The argument \<open>{ mutation: {...}, query: {...} }\<close> of an update callback.\<close>

record mutation_info =
  mutation_name :: string
  mutation_variables :: json
  mutation_result :: json

record query_info =
  query_name :: string
  query_variables :: json
  query_result :: data

record update_args =
  args_mutation :: mutation_info
  args_query :: query_info

text \<open>
  An update callback returns new data, or \<open>null\<close>/\<open>undefined\<close> (\<open>None\<close>) for no
  change, or throws.
\<close>

type_synonym update_fn = "update_args \<Rightarrow> exn + data option"

type_synonym resolver_map = "(string \<times> (string \<times> update_fn) list) list"

text \<open>The constructor's arguments.\<close>

record 's config =
  cache_of :: "'s cache_api"
  mutationQueryResolverMap :: resolver_map
  debug :: bool
  readOnly :: bool

text \<open>A key handed to the snapshot store: a cache key object or a string.\<close>

datatype request_key = ObjectKey cache_key | StringKey string

text \<open>
  Everything that changes: the store, the own properties of the tracker's
  \<open>queriesToUpdate\<close> object, the snapshot store and the browser console
  (\<open>window.console.log\<close> exists and appends a message).
\<close>

record 's world =
  store :: 's
  queriesToUpdate :: "(string \<times> cache_key list) list"
  inflightRequests :: "(request_key \<times> data option) list"
  console :: "string list"

definition console_log :: "string \<Rightarrow> 's world \<Rightarrow> 's world" where
  "console_log message w = w\<lparr>console := console w @ [message]\<rparr>"

section \<open>queries-to-update-manager\<close>

text \<open>
  \<open>queriesToUpdate\<close> is a plain object, so \<open>queriesToUpdate[queryName]\<close> finds the
  array stored under the name or, when there is none, what \<open>Object.prototype\<close> defines
  for the name: a function, or for \<open>__proto__\<close> the prototype object itself. Each of these
  is truthy and is not an array.
\<close>

definition object_prototype_names :: "string list" where
  "object_prototype_names =
     [''constructor'', ''__defineGetter__'', ''__defineSetter__'', ''hasOwnProperty'',
      ''__lookupGetter__'', ''__lookupSetter__'', ''isPrototypeOf'', ''propertyIsEnumerable'',
      ''toString'', ''valueOf'', ''__proto__'', ''toLocaleString'']"

text \<open>
  The \<open>length\<close> property of what \<open>Object.prototype\<close> defines for a name: the number of
  parameters of the function, \<open>undefined\<close> (\<open>None\<close>) for the prototype object.
\<close>

definition inherited_length :: "string \<Rightarrow> nat option" where
  "inherited_length n =
     (if n = ''__proto__'' then None
      else if n \<in> set [''__defineGetter__'', ''__defineSetter__''] then Some 2
      else if n \<in> set [''toString'', ''valueOf'', ''toLocaleString''] then Some 0
      else Some 1)"

text \<open>
  What \<open>getQueryKeysToUpdate\<close> returns: an array of keys, or the value inherited for the
  name.
\<close>

datatype tracked_value = Keys "cache_key list" | Inherited string

definition getQueryKeysToUpdate :: "string \<Rightarrow> 's world \<Rightarrow> tracked_value" where
  "getQueryKeysToUpdate queryName w =
     (case map_of (queriesToUpdate w) queryName of
        Some keys \<Rightarrow> Keys keys
      | None \<Rightarrow>
          if queryName \<in> set object_prototype_names then Inherited queryName else Keys [])"

text \<open>
  \<open>addQuery\<close> calls \<open>some\<close> on what \<open>getQueryKeysToUpdate\<close> returns: on an inherited
  value that is a call of \<open>undefined\<close>.
\<close>

definition addQuery :: "bool \<Rightarrow> string \<Rightarrow> cache_key \<Rightarrow> 's world \<Rightarrow> (exn + unit) \<times> 's world" where
  "addQuery dbg queryName queryKey w =
     (case getQueryKeysToUpdate queryName w of
        Inherited _ \<Rightarrow> (Inl TypeError, w)
      | Keys existingQueryKeys \<Rightarrow>
          if \<not> list_ex (\<lambda>key. key_stringify key = key_stringify queryKey) existingQueryKeys
          then
            (let w1 = w\<lparr>queriesToUpdate :=
                          AList.update queryName (existingQueryKeys @ [queryKey])
                            (queriesToUpdate w)\<rparr>
             in (Inr (),
                 if dbg
                 then console_log ''Tracking a new QueryName + QueryCacheKey combination'' w1
                 else w1))
          else (Inr (), w))"

text \<open>
  \<open>removeQuery\<close> calls \<open>filter\<close> on what \<open>getQueryKeysToUpdate\<close> returns, and then
  reads \<open>queriesToUpdate[queryName].length\<close> without the \<open>|| []\<close> default: on a name
  with no entry that is a property read on \<open>undefined\<close>.
\<close>

definition removeQuery :: "bool \<Rightarrow> string \<Rightarrow> cache_key \<Rightarrow> 's world \<Rightarrow> (exn + unit) \<times> 's world" where
  "removeQuery dbg queryName queryKey w =
     (case getQueryKeysToUpdate queryName w of
        Inherited _ \<Rightarrow> (Inl TypeError, w)
      | Keys keys \<Rightarrow>
          (let updatedQueryKeys =
                 filter (\<lambda>key. key_stringify key \<noteq> key_stringify queryKey) keys
           in case map_of (queriesToUpdate w) queryName of
                None \<Rightarrow> (Inl TypeError, w)
              | Some current \<Rightarrow>
                  if length current \<noteq> length updatedQueryKeys
                  then
                    (let w1 = w\<lparr>queriesToUpdate :=
                                  AList.update queryName updatedQueryKeys (queriesToUpdate w)\<rparr>
                     in (Inr (),
                         if dbg
                         then console_log
                                ''Removed a tracked QueryName + QueryCacheKey combination'' w1
                         else w1))
                  else (Inr (), w)))"

definition hasQueryToUpdate :: "string \<Rightarrow> 's world \<Rightarrow> bool" where
  "hasQueryToUpdate queryName w =
     (case getQueryKeysToUpdate queryName w of
        Keys keys \<Rightarrow> length keys > 0
      | Inherited n \<Rightarrow> (case inherited_length n of None \<Rightarrow> False | Some l \<Rightarrow> l > 0))"

section \<open>cache-manager\<close>

text \<open>
  \<open>performTransaction\<close> hands the write function to the store's own
  \<open>performTransaction\<close> when there is one and calls it directly otherwise; both run it
  once.
\<close>

definition performTransaction :: "('s world \<Rightarrow> 's world) \<Rightarrow> 's world \<Rightarrow> 's world" where
  "performTransaction writeFn w = writeFn w"

definition read :: "'s config \<Rightarrow> cache_key \<Rightarrow> 's world \<Rightarrow> data option \<times> 's world" where
  "read cfg query w =
     (case cache_readQuery (cache_of cfg) (store w) query of
        Inr d \<Rightarrow> (d, w)
      | Inl error \<Rightarrow>
          (None, if debug cfg then console_log ''Error --- Unable to read from cache'' w else w))"

definition write' :: "'s config \<Rightarrow> cache_key \<Rightarrow> data \<Rightarrow> 's world \<Rightarrow> 's world" where
  "write' cfg query d w =
     (if readOnly cfg
      then (if debug cfg
            then console_log
                   ''ReadOnly --- this link will NOT write to the cache but it would have attempted to'' w
            else w)
      else (case cache_writeQuery (cache_of cfg) (store w) query d of
              (None, s') \<Rightarrow>
                (if debug cfg
                 then console_log ''Success --- Updated the cache upon a mutation/subscription''
                        (w\<lparr>store := s'\<rparr>)
                 else w\<lparr>store := s'\<rparr>)
            | (Some error, s') \<Rightarrow>
                (if debug cfg
                 then console_log ''Error --- Unable to write to the cache'' (w\<lparr>store := s'\<rparr>)
                 else w\<lparr>store := s'\<rparr>)))"

text \<open>The store field names of the top-level fields; the first failure ends the map.\<close>

fun store_field_names ::
  "'s cache_api \<Rightarrow> json \<Rightarrow> selection_node list \<Rightarrow> exn + string list" where
  "store_field_names api vars [] = Inr []"
| "store_field_names api vars (fieldNode # rest) =
     (case policies_getStoreFieldName api (policies_rootQueryTypename api)
             (field_name fieldNode) fieldNode vars of
        Inl e \<Rightarrow> Inl e
      | Inr cacheId \<Rightarrow>
          (case store_field_names api vars rest of
             Inl e \<Rightarrow> Inl e
           | Inr cacheIds \<Rightarrow> Inr (cacheId # cacheIds)))"

text \<open>
  The loop \<open>cacheIds.forEach(cacheId => { evicted ||= cache.evict({ fieldName: cacheId }) })\<close>:
  the assignment \<open>||=\<close> evaluates its right-hand side only while \<open>evicted\<close> is false.
\<close>

fun evict_each :: "'s cache_api \<Rightarrow> string list \<Rightarrow> bool \<Rightarrow> 's \<Rightarrow> (exn + bool) \<times> 's" where
  "evict_each api [] evicted s = (Inr evicted, s)"
| "evict_each api (cacheId # cacheIds) evicted s =
     (if evicted then evict_each api cacheIds evicted s
      else (case cache_evict api s cacheId of
              (Inl e, s') \<Rightarrow> (Inl e, s')
            | (Inr b, s') \<Rightarrow> evict_each api cacheIds b s'))"

text \<open>
  The body of the \<open>try\<close> block of \<open>evict\<close>. Its debug message reads the identifier
  \<open>queryName\<close>, which nothing in the module declares.
\<close>

definition evict_try :: "'s config \<Rightarrow> cache_key \<Rightarrow> 's world \<Rightarrow> (exn + bool) \<times> 's world" where
  "evict_try cfg query w =
     (case getQueryDefinition (key_query query) of
        Inl e \<Rightarrow> (Inl e, w)
      | Inr queryDefinition \<Rightarrow>
          (case store_field_names (cache_of cfg) (key_variables query)
                  (filter isField (selections_of queryDefinition)) of
             Inl e \<Rightarrow> (Inl e, w)
           | Inr cacheIds \<Rightarrow>
               (case evict_each (cache_of cfg) cacheIds False (store w) of
                  (Inl e, s') \<Rightarrow> (Inl e, w\<lparr>store := s'\<rparr>)
                | (Inr evicted, s') \<Rightarrow>
                    if debug cfg then (Inl ReferenceError, w\<lparr>store := s'\<rparr>)
                    else (Inr evicted, w\<lparr>store := s'\<rparr>))))"

text \<open>
  \<open>evict\<close> returns \<open>false\<close> in read-only mode, \<open>evicted\<close> after the loop, and
  \<open>undefined\<close> (\<open>None\<close>) after a caught error; the debug message of the \<open>catch\<close> block
  reads \<open>queryName\<close> too.
\<close>

definition evict :: "'s config \<Rightarrow> cache_key \<Rightarrow> 's world \<Rightarrow> (exn + bool option) \<times> 's world" where
  "evict cfg query w =
     (if readOnly cfg
      then (Inr (Some False),
            if debug cfg
            then console_log
                   ''ReadOnly --- this link will NOT evict from the cache but it would have attempted to'' w
            else w)
      else (case evict_try cfg query w of
              (Inr evicted, w1) \<Rightarrow> (Inr (Some evicted), w1)
            | (Inl error, w1) \<Rightarrow>
                if debug cfg then (Inl ReferenceError, w1) else (Inr None, w1)))"

definition gc :: "'s config \<Rightarrow> 's world \<Rightarrow> 's world" where
  "gc cfg w =
     (case cache_gc (cache_of cfg) (store w) of
        (None, s') \<Rightarrow> w\<lparr>store := s'\<rparr>
      | (Some error, s') \<Rightarrow>
          (if debug cfg
           then console_log ''Error --- Unable to run garbage collection on cache''
                  (w\<lparr>store := s'\<rparr>)
           else w\<lparr>store := s'\<rparr>))"


section \<open>mutations-to-update-manager\<close>

text \<open>
  Modelled from the spec: the module \<open>mutations-to-update-manager\<close> is not among the
  sources. \<open>isWatched(mutationName)\<close> tells whether the configuration object has the
  mutation name.
\<close>

definition isWatched :: "resolver_map \<Rightarrow> string \<Rightarrow> bool" where
  "isWatched m mutationName = (map_of m mutationName \<noteq> None)"

text \<open>
  Modelled from the spec: \<open>getRegisteredQueryNames(mutationName)\<close> of the missing module
  \<open>mutations-to-update-manager\<close> is the ordered list of query names of the mutation,
  empty if it is not watched.
\<close>

definition getRegisteredQueryNames :: "resolver_map \<Rightarrow> string \<Rightarrow> string list" where
  "getRegisteredQueryNames m mutationName =
     (case map_of m mutationName of None \<Rightarrow> [] | Some queries \<Rightarrow> map fst queries)"

text \<open>
  Modelled from the spec: \<open>getUpdateFn(mutationName, queryName)\<close> of the missing module
  \<open>mutations-to-update-manager\<close> fails with \<open>MissingUpdateFunction\<close> if the pair was
  not registered.
\<close>

definition getUpdateFn :: "resolver_map \<Rightarrow> string \<Rightarrow> string \<Rightarrow> exn + update_fn" where
  "getUpdateFn m mutationName queryName =
     (case map_of m mutationName of
        None \<Rightarrow> Inl MissingUpdateFunction
      | Some queries \<Rightarrow>
          (case map_of queries queryName of
             None \<Rightarrow> Inl MissingUpdateFunction
           | Some updateFn \<Rightarrow> Inr updateFn))"

text \<open>
  Modelled from the spec: \<open>getAllRegisteredQueryNames()\<close> of the missing module
  \<open>mutations-to-update-manager\<close> collects the query names of all mutations.
\<close>

definition getAllRegisteredQueryNames :: "resolver_map \<Rightarrow> string list" where
  "getAllRegisteredQueryNames m = remdups (concat (map (\<lambda>entry. map fst (snd entry)) m))"

text \<open>
  Modelled from the spec: \<open>getMutationNames()\<close> of the missing module
  \<open>mutations-to-update-manager\<close> lists the watched mutation names.
\<close>

definition getMutationNames :: "resolver_map \<Rightarrow> string list" where
  "getMutationNames m = map fst m"

section \<open>inflight-request-manager\<close>

text \<open>
  Modelled from the spec: the module \<open>inflight-request-manager\<close> is not among the
  sources. \<open>set(key, priorDataOrAbsentMarker)\<close> records or overwrites the snapshot for
  the key; \<open>None\<close> is the absent marker (\<open>null\<close> or \<open>undefined\<close>).
\<close>

definition set_request :: "request_key \<Rightarrow> data option \<Rightarrow> 's world \<Rightarrow> 's world" where
  "set_request key beforeState w =
     w\<lparr>inflightRequests := AList.update key beforeState (inflightRequests w)\<rparr>"

text \<open>
  Modelled from the spec: \<open>getBeforeState(key)\<close> of the missing module
  \<open>inflight-request-manager\<close> returns the recorded data, or absent.
\<close>

definition getBeforeState :: "request_key \<Rightarrow> 's world \<Rightarrow> data option" where
  "getBeforeState key w =
     (case map_of (inflightRequests w) key of None \<Rightarrow> None | Some beforeState \<Rightarrow> beforeState)"

section \<open>utils\<close>

text \<open>
  Modelled from the spec: the module \<open>utils\<close> is not among the sources. The transport
  produces one result per operation, a success or a failure, each with its payload.
\<close>

datatype exec_result = Succeeded json | Failed json

text \<open>
  Modelled from the spec: the payload of a result, the value an update callback receives
  as the mutation's result.
\<close>

definition result_payload :: "exec_result \<Rightarrow> json" where
  "result_payload r = (case r of Succeeded j \<Rightarrow> j | Failed j \<Rightarrow> j)"

text \<open>
  Modelled from the spec: \<open>isSuccessful\<close> of the missing module \<open>utils\<close>.
\<close>

definition isSuccessful :: "exec_result \<Rightarrow> bool" where
  "isSuccessful r = (case r of Succeeded _ \<Rightarrow> True | Failed _ \<Rightarrow> False)"

text \<open>
  Modelled from the spec: \<open>isSuccessfulQuery\<close> of the missing module \<open>utils\<close>: the kind
  is query and the result succeeded.
\<close>

definition isSuccessfulQuery :: "operation_type option \<Rightarrow> exec_result \<Rightarrow> bool" where
  "isSuccessfulQuery kind r = (kind = Some OpQuery \<and> isSuccessful r)"

text \<open>
  Modelled from the spec: \<open>isSuccessfulMutation\<close> of the missing module \<open>utils\<close>: the
  kind is mutation and the result succeeded.
\<close>

definition isSuccessfulMutation :: "operation_type option \<Rightarrow> exec_result \<Rightarrow> bool" where
  "isSuccessfulMutation kind r = (kind = Some OpMutation \<and> isSuccessful r)"

text \<open>
  Modelled from the spec: \<open>isFailedMutation\<close> of the missing module \<open>utils\<close>: the kind
  is mutation and the result failed.
\<close>

definition isFailedMutation :: "operation_type option \<Rightarrow> exec_result \<Rightarrow> bool" where
  "isFailedMutation kind r = (kind = Some OpMutation \<and> \<not> isSuccessful r)"

text \<open>
  Modelled from the spec: \<open>isOptimistic\<close> of the missing module \<open>utils\<close> reads the
  optimistic flag of the operation's context.
\<close>

definition isOptimistic :: "request_context \<Rightarrow> bool" where
  "isOptimistic ctx = optimistic ctx"

text \<open>
  Modelled from the spec: \<open>getQueryName\<close> of the missing module \<open>utils\<close> is the
  operation name of a document, derived as the link derives it in \<open>request\<close>.
\<close>

definition getQueryName :: "document \<Rightarrow> exn + string" where
  "getQueryName doc =
     (case getMainDefinition doc of Inl e \<Rightarrow> Inl e | Inr d \<Rightarrow> Inr (operationName_of d))"

section \<open>WatchedMutationLink\<close>

text \<open>
  The constructor creates the tracker with \<open>createQueryKeyManager()\<close>, without a debug
  argument: the tracker of the link never logs.
\<close>

definition debugLog :: "'s config \<Rightarrow> string \<Rightarrow> 's world \<Rightarrow> 's world" where
  "debugLog cfg payload w = (if debug cfg then console_log payload w else w)"

definition isQueryRelated :: "'s config \<Rightarrow> string \<Rightarrow> bool" where
  "isQueryRelated cfg operationName =
     (let registeredQueryNames = getAllRegisteredQueryNames (mutationQueryResolverMap cfg)
      in list_ex (\<lambda>queryName. queryName = operationName \<or> False) registeredQueryNames)"

definition addRelatedQuery ::
  "'s config \<Rightarrow> string \<Rightarrow> operation \<Rightarrow> 's world \<Rightarrow> (exn + unit) \<times> 's world" where
  "addRelatedQuery cfg queryName operation w = addQuery False queryName (createKey operation) w"

definition removeRelatedQuery ::
  "'s config \<Rightarrow> string \<Rightarrow> cache_key \<Rightarrow> 's world \<Rightarrow> (exn + unit) \<times> 's world" where
  "removeRelatedQuery cfg queryName queryKey w = removeQuery False queryName queryKey w"

text \<open>
  The \<open>reduce\<close> of \<open>getCachedQueryKeysToUpdate\<close> spreads what
  \<open>getQueryKeysToUpdate\<close> returns into the list: an inherited value is not iterable.
\<close>

definition getCachedQueryKeysToUpdate ::
  "'s config \<Rightarrow> string \<Rightarrow> 's world \<Rightarrow> exn + cache_key list" where
  "getCachedQueryKeysToUpdate cfg mutationName w =
     (let relevantQueryNames =
            getRegisteredQueryNames (mutationQueryResolverMap cfg) mutationName
      in foldl (\<lambda>acc queryName.
                  case acc of
                    Inl e \<Rightarrow> Inl e
                  | Inr queryCacheKeyList \<Rightarrow>
                      (case getQueryKeysToUpdate queryName w of
                         Keys relevantQueryCacheKeys \<Rightarrow>
                           Inr (queryCacheKeyList @ relevantQueryCacheKeys)
                       | Inherited _ \<Rightarrow> Inl TypeError))
           (Inr []) relevantQueryNames)"

text \<open>
  \<open>getUpdateAfterMutation\<close> returns \<open>{ queryKey, updatedData }\<close> or \<open>undefined\<close>
  (\<open>None\<close>).
\<close>

definition getUpdateAfterMutation ::
  "'s config \<Rightarrow> operation \<Rightarrow> json \<Rightarrow> cache_key \<Rightarrow> 's world
     \<Rightarrow> (exn + (cache_key \<times> data) option) \<times> 's world" where
  "getUpdateAfterMutation cfg mutationOperation mutationData queryKey w =
     (case getQueryName (key_query queryKey) of
        Inl e \<Rightarrow> (Inl e, w)
      | Inr queryName \<Rightarrow>
          (case read cfg queryKey w of
             (None, w1) \<Rightarrow>
               (case removeRelatedQuery cfg queryName queryKey w1 of
                  (Inl e, w2) \<Rightarrow> (Inl e, w2)
                | (Inr _, w2) \<Rightarrow> (Inr None, w2))
           | (Some cachedQueryData, w1) \<Rightarrow>
               (case getQueryName (op_query mutationOperation) of
                  Inl e \<Rightarrow> (Inl e, w1)
                | Inr mutationName \<Rightarrow>
                    (case getUpdateFn (mutationQueryResolverMap cfg) mutationName queryName of
                       Inl e \<Rightarrow> (Inl e, w1)
                     | Inr updateQueryCb \<Rightarrow>
                         (case updateQueryCb
                                 \<lparr>args_mutation =
                                    \<lparr>mutation_name = mutationName,
                                     mutation_variables = op_variables mutationOperation,
                                     mutation_result = mutationData\<rparr>,
                                  args_query =
                                    \<lparr>query_name = queryName,
                                     query_variables = key_variables queryKey,
                                     query_result = cachedQueryData\<rparr>\<rparr> of
                            Inl e \<Rightarrow> (Inl e, w1)
                          | Inr None \<Rightarrow> (Inr None, w1)
                          | Inr (Some updatedData) \<Rightarrow>
                              (Inr (Some (queryKey, updatedData)), w1))))))"

text \<open>The \<open>reduce\<close> of \<open>updateQueriesAfterMutation\<close> that collects the items to write.\<close>

fun itemsToWrite ::
  "'s config \<Rightarrow> operation \<Rightarrow> json \<Rightarrow> cache_key list \<Rightarrow> (cache_key \<times> data) list \<Rightarrow> 's world
     \<Rightarrow> (exn + (cache_key \<times> data) list) \<times> 's world" where
  "itemsToWrite cfg operation result [] items w = (Inr items, w)"
| "itemsToWrite cfg operation result (queryKey # rest) items w =
     (case getUpdateAfterMutation cfg operation result queryKey
             (debugLog cfg
                ''Found a cached query related to this successful mutation, this Link will invoke the associated callback''
                w) of
        (Inl e, w1) \<Rightarrow> (Inl e, w1)
      | (Inr (Some resultToWrite), w1) \<Rightarrow>
          itemsToWrite cfg operation result rest (items @ [resultToWrite]) w1
      | (Inr None, w1) \<Rightarrow>
          itemsToWrite cfg operation result rest items
            (debugLog cfg
               ''We did NOT receive anything new to write to the cache so we will not do anything''
               w1))"

definition updateQueriesAfterMutation ::
  "'s config \<Rightarrow> operation \<Rightarrow> string \<Rightarrow> json \<Rightarrow> 's world \<Rightarrow> (exn + unit) \<times> 's world" where
  "updateQueriesAfterMutation cfg operation operationName result w =
     (case getCachedQueryKeysToUpdate cfg operationName w of
        Inl e \<Rightarrow> (Inl e, w)
      | Inr cachedQueryToUpdateKeys \<Rightarrow>
          (case itemsToWrite cfg operation result cachedQueryToUpdateKeys [] w of
             (Inl e, w1) \<Rightarrow> (Inl e, w1)
           | (Inr items, w1) \<Rightarrow>
               (Inr (),
                performTransaction
                  (\<lambda>w2. foldl (\<lambda>w3 item. write' cfg (fst item) (snd item) w3) w2 items)
                  w1)))"

definition addOptimisticRequest ::
  "'s config \<Rightarrow> string \<Rightarrow> 's world \<Rightarrow> (exn + unit) \<times> 's world" where
  "addOptimisticRequest cfg operationName w =
     (case getCachedQueryKeysToUpdate cfg operationName w of
        Inl e \<Rightarrow> (Inl e, w)
      | Inr cachedQueryToUpdateKeys \<Rightarrow>
          (Inr (),
           foldl (\<lambda>w1 queryKey.
                    case read cfg queryKey w1 of
                      (currentCachedState, w2) \<Rightarrow>
                        debugLog cfg
                          ''Added a cached optimistic query in case we need to revert it after an optimistic error''
                          (set_request (ObjectKey queryKey) currentCachedState w2))
             w cachedQueryToUpdateKeys))"

definition clearOptimisticRequest :: "'s config \<Rightarrow> request_key \<Rightarrow> 's world \<Rightarrow> 's world" where
  "clearOptimisticRequest cfg queryKey w =
     debugLog cfg ''Cleared a cached optimistic query'' (set_request queryKey None w)"

definition revertOptimisticRequest ::
  "'s config \<Rightarrow> string \<Rightarrow> 's world \<Rightarrow> (exn + unit) \<times> 's world" where
  "revertOptimisticRequest cfg operationName w =
     (case getCachedQueryKeysToUpdate cfg operationName w of
        Inl e \<Rightarrow> (Inl e, w)
      | Inr cachedQueryToUpdateKeys \<Rightarrow>
          (Inr (),
           foldl (\<lambda>w1 queryKey.
                    clearOptimisticRequest cfg (ObjectKey queryKey)
                      (case getBeforeState (ObjectKey queryKey) w1 of
                         Some previousCachedState \<Rightarrow>
                           debugLog cfg ''Reverted an optimistic request after an error''
                             (write' cfg queryKey previousCachedState w1)
                       | None \<Rightarrow> w1))
             w cachedQueryToUpdateKeys))"

text \<open>
  \<open>request\<close> in its two parts. \<open>request_enter\<close> is what runs before the result stream
  is returned; \<open>request_result\<close> is the function mapped over the stream, which sees the
  \<open>definition\<close>, \<open>operationName\<close> and \<open>context\<close> computed on entry: they depend on
  the operation alone and are computed again here. On the optimistic success path the code
  hands the operation name, a string, to \<open>clearOptimisticRequest\<close>. \<open>request\<close> is the
  whole life of an operation whose stream carries one result; if the entry part throws,
  the result is never handled.
\<close>

definition request_enter :: "'s config \<Rightarrow> operation \<Rightarrow> 's world \<Rightarrow> (exn + unit) \<times> 's world" where
  "request_enter cfg operation w =
     (case getMainDefinition (op_query operation) of
        Inl e \<Rightarrow> (Inl e, w)
      | Inr defn \<Rightarrow>
          (let operationName = operationName_of defn;
               ctx = op_context operation
           in if isOptimistic ctx \<and> isWatched (mutationQueryResolverMap cfg) operationName
              then (case addOptimisticRequest cfg operationName w of
                      (Inl e, w1) \<Rightarrow> (Inl e, w1)
                    | (Inr _, w1) \<Rightarrow>
                        updateQueriesAfterMutation cfg operation operationName
                          (JObj [(''data'', optimisticResponse ctx)]) w1)
              else (Inr (), w)))"

definition request_result ::
  "'s config \<Rightarrow> operation \<Rightarrow> exec_result \<Rightarrow> 's world \<Rightarrow> (exn + exec_result) \<times> 's world" where
  "request_result cfg operation result w =
     (case getMainDefinition (op_query operation) of
        Inl e \<Rightarrow> (Inl e, w)
      | Inr defn \<Rightarrow>
          (let operationName = operationName_of defn;
               ctx = op_context operation
           in if isSuccessfulQuery (operation_of defn) result \<and> isQueryRelated cfg operationName
              then (case addRelatedQuery cfg operationName operation
                           (debugLog cfg
                              ''Found a successful query related to a watched mutation'' w) of
                      (Inl e, w1) \<Rightarrow> (Inl e, w1)
                    | (Inr _, w1) \<Rightarrow> (Inr result, w1))
              else if isSuccessfulMutation (operation_of defn) result
                      \<and> isWatched (mutationQueryResolverMap cfg) operationName
              then (if isOptimistic ctx
                    then (Inr result, clearOptimisticRequest cfg (StringKey operationName) w)
                    else (case updateQueriesAfterMutation cfg operation operationName
                                 (result_payload result) w of
                            (Inl e, w1) \<Rightarrow> (Inl e, w1)
                          | (Inr _, w1) \<Rightarrow> (Inr result, w1)))
              else if isFailedMutation (operation_of defn) result
                      \<and> isWatched (mutationQueryResolverMap cfg) operationName
                      \<and> isOptimistic ctx
              then (case revertOptimisticRequest cfg operationName w of
                      (Inl e, w1) \<Rightarrow> (Inl e, w1)
                    | (Inr _, w1) \<Rightarrow> (Inr result, w1))
              else (Inr result, w)))"

definition request ::
  "'s config \<Rightarrow> operation \<Rightarrow> exec_result \<Rightarrow> 's world \<Rightarrow> (exn + exec_result) \<times> 's world" where
  "request cfg operation result w =
     (case request_enter cfg operation w of
        (Inl e, w1) \<Rightarrow> (Inl e, w1)
      | (Inr _, w1) \<Rightarrow> request_result cfg operation result w1)"


section \<open>A store and a configuration for the scenarios\<close>

text \<open>
  A store that keeps one payload per cache key and a list of root-level field names:
  \<open>readQuery\<close> throws on a miss, \<open>writeQuery\<close> replaces the entry, \<open>evict\<close> removes a
  field and reports whether it was there.
\<close>

record simple_store =
  results :: "(cache_key \<times> data) list"
  rootFields :: "string list"

definition simple_api :: "simple_store cache_api" where
  "simple_api =
     \<lparr>cache_readQuery =
        (\<lambda>s key. case map_of (results s) key of
                    None \<Rightarrow> Inl StoreFailure
                  | Some d \<Rightarrow> Inr (Some d)),
      cache_writeQuery = (\<lambda>s key d. (None, s\<lparr>results := AList.update key d (results s)\<rparr>)),
      cache_evict =
        (\<lambda>s fieldName.
           (Inr (fieldName \<in> set (rootFields s)),
            s\<lparr>rootFields := removeAll fieldName (rootFields s)\<rparr>)),
      cache_gc = (\<lambda>s. (None, s)),
      policies_rootQueryTypename = ''Query'',
      policies_getStoreFieldName = (\<lambda>typename fieldName fieldNode vars. Inr fieldName)\<rparr>"

text \<open>
  The scenario of the spec: mutation \<open>AddItem\<close> is registered as affecting query
  \<open>ListItems\<close>, with a callback that appends the mutation's item to \<open>items\<close>.
\<close>

definition appendItem :: update_fn where
  "appendItem args =
     (case mutation_result (args_mutation args) of
        JObj ps \<Rightarrow>
          (case map_of ps ''data'' of
             Some (JObj qs) \<Rightarrow>
               (case (map_of qs ''addItem'', map_of (query_result (args_query args)) ''items'') of
                  (Some item, Some (JArr xs)) \<Rightarrow> Inr (Some [(''items'', JArr (xs @ [item]))])
                | _ \<Rightarrow> Inr None)
           | _ \<Rightarrow> Inr None)
      | _ \<Rightarrow> Inr None)"

definition demo_cfg :: "simple_store config" where
  "demo_cfg =
     \<lparr>cache_of = simple_api,
      mutationQueryResolverMap = [(''AddItem'', [(''ListItems'', appendItem)])],
      debug = False,
      readOnly = False\<rparr>"

definition listItems_operation :: operation where
  "listItems_operation =
     \<lparr>op_query = [OperationDefinition OpQuery (Some ''ListItems'') [Field ''items'' [] []]],
      op_variables = JObj [],
      op_context = \<lparr>optimistic = False, optimisticResponse = JUndefined\<rparr>\<rparr>"

definition listItems_key :: cache_key where
  "listItems_key = createKey listItems_operation"

definition addItem_operation :: operation where
  "addItem_operation =
     \<lparr>op_query = [OperationDefinition OpMutation (Some ''AddItem'') [Field ''addItem'' [] []]],
      op_variables = JObj [],
      op_context =
        \<lparr>optimistic = True, optimisticResponse = JObj [(''addItem'', JStr ''B'')]\<rparr>\<rparr>"

text \<open>The cache seeded with \<open>{items: [A]}\<close>, nothing tracked yet.\<close>

definition w_seeded :: "simple_store world" where
  "w_seeded =
     \<lparr>store = \<lparr>results = [(listItems_key, [(''items'', JArr [JStr ''A''])])], rootFields = []\<rparr>,
      queriesToUpdate = [],
      inflightRequests = [],
      console = []\<rparr>"

text \<open>\<open>ListItems\<close> runs and succeeds: its key is tracked.\<close>

definition w_tracked :: "simple_store world" where
  "w_tracked =
     snd (request demo_cfg listItems_operation
            (Succeeded (JObj [(''data'', JObj [(''items'', JArr [JStr ''A''])])])) w_seeded)"

text \<open>\<open>AddItem\<close> enters with the optimistic response predicting item \<open>B\<close>.\<close>

definition w_optimistic :: "simple_store world" where
  "w_optimistic = snd (request_enter demo_cfg addItem_operation w_tracked)"

text \<open>The mutation resolves successfully with the server's item \<open>B'\<close>.\<close>

definition w_confirmed :: "simple_store world" where
  "w_confirmed =
     snd (request_result demo_cfg addItem_operation
            (Succeeded (JObj [(''data'', JObj [(''addItem'', JStr ''B1'')])])) w_optimistic)"

text \<open>The mutation fails instead.\<close>

definition w_reverted :: "simple_store world" where
  "w_reverted =
     snd (request_result demo_cfg addItem_operation
            (Failed (JObj [(''errors'', JArr [JStr ''rejected''])])) w_optimistic)"

text \<open>A query with two top-level fields, both present in the store.\<close>

definition two_fields_key :: cache_key where
  "two_fields_key =
     \<lparr>key_query =
        [OperationDefinition OpQuery (Some ''Dashboard'')
           [Field ''items'' [] [], Field ''users'' [] []]],
      key_variables = JObj []\<rparr>"

definition w_two_fields :: "simple_store world" where
  "w_two_fields =
     \<lparr>store = \<lparr>results = [], rootFields = [''items'', ''users'']\<rparr>,
      queriesToUpdate = [],
      inflightRequests = [],
      console = []\<rparr>"


text \<open>An anonymous query, sent with an optimistic response.\<close>

definition anonymous_operation :: operation where
  "anonymous_operation =
     \<lparr>op_query = [OperationDefinition OpQuery None [Field ''items'' [] []]],
      op_variables = JObj [],
      op_context = \<lparr>optimistic = True, optimisticResponse = JObj []\<rparr>\<rparr>"

text \<open>
  A second key of \<open>ListItems\<close>, with a filter variable, and a state in which both keys
  are tracked but only the filtered one is still in the cache.
\<close>

definition listItems_x_key :: cache_key where
  "listItems_x_key = listItems_key\<lparr>key_variables := JObj [(''filter'', JStr ''x'')]\<rparr>"

definition w_invalidated :: "simple_store world" where
  "w_invalidated =
     \<lparr>store = \<lparr>results = [(listItems_x_key, [(''items'', JArr [JStr ''X''])])], rootFields = []\<rparr>,
      queriesToUpdate = [(''ListItems'', [listItems_key, listItems_x_key])],
      inflightRequests = [],
      console = []\<rparr>"

text \<open>The payload of a successful \<open>AddItem\<close> with the server's item.\<close>

definition addItem_payload :: json where
  "addItem_payload = JObj [(''data'', JObj [(''addItem'', JStr ''B1'')])]"

section \<open>Structural equality of cache keys\<close>

text \<open>
  The equality the spec asks of cache keys, in its words: two keys are equal iff their
  document and their variables are structurally equal. Two objects are structurally equal
  when they have the same properties with structurally equal values, in whatever order
  the properties were written.
\<close>

fun deep_equal :: "json \<Rightarrow> json \<Rightarrow> bool"
  and deep_equal_elements :: "json list \<Rightarrow> json list \<Rightarrow> bool"
  and deep_equal_properties :: "(string \<times> json) list \<Rightarrow> (string \<times> json) list \<Rightarrow> bool" where
  "deep_equal (JArr xs) (JArr ys) = deep_equal_elements xs ys"
| "deep_equal (JObj ps) (JObj qs) = (length ps = length qs \<and> deep_equal_properties ps qs)"
| "deep_equal a b = (a = b)"
| "deep_equal_elements [] [] = True"
| "deep_equal_elements (x # xs) (y # ys) = (deep_equal x y \<and> deep_equal_elements xs ys)"
| "deep_equal_elements _ _ = False"
| "deep_equal_properties [] qs = True"
| "deep_equal_properties ((k, v) # ps) qs =
     ((case map_of qs k of None \<Rightarrow> False | Some v' \<Rightarrow> deep_equal v v')
      \<and> deep_equal_properties ps qs)"




section \<open>Invariant of the tracker\<close>

text \<open>
  What \<open>addQuery\<close> and the link establish for every tracked name: the keys of one name
  have pairwise different serialisations, and each key is tracked under the operation
  name of its own document.
\<close>

definition tracked_ok :: "'s world \<Rightarrow> bool" where
  "tracked_ok w =
     list_all
       (\<lambda>entry.
          distinct (map key_stringify (snd entry))
          \<and> list_all (\<lambda>key. getQueryName (key_query key) = Inr (fst entry)) (snd entry))
       (queriesToUpdate w)"

text \<open>The keys stored under a name in \<open>queriesToUpdate\<close>, none if it has no entry.\<close>

definition own_keys :: "string \<Rightarrow> 's world \<Rightarrow> cache_key list" where
  "own_keys n w = (case map_of (queriesToUpdate w) n of Some keys \<Rightarrow> keys | None \<Rightarrow> [])"

text \<open>
  A key can be removed from the tracker on its own: its document has an operation name,
  the tracker has an entry for that name, and no other key of that entry has the same
  serialisation.
\<close>

definition removable :: "'s world \<Rightarrow> cache_key \<Rightarrow> bool" where
  "removable w k =
     (case getQueryName (key_query k) of
        Inl _ \<Rightarrow> False
      | Inr n \<Rightarrow>
          map_of (queriesToUpdate w) n \<noteq> None
          \<and> list_all (\<lambda>x. key_stringify x = key_stringify k \<longrightarrow> x = k) (own_keys n w))"

text \<open>What a cache read yields: the payload, or \<open>None\<close> for \<open>null\<close> and for a failed read.\<close>

definition read_value :: "'s config \<Rightarrow> 's world \<Rightarrow> cache_key \<Rightarrow> data option" where
  "read_value cfg w k = fst (read cfg k w)"

section \<open>Properties\<close>

subsection \<open>Frame lemmas\<close>

lemma console_log_frame [simp]:
  "store (console_log m w) = store w"
  "queriesToUpdate (console_log m w) = queriesToUpdate w"
  "inflightRequests (console_log m w) = inflightRequests w"
  by (simp_all add: console_log_def)

lemma debugLog_frame [simp]:
  "store (debugLog cfg m w) = store w"
  "queriesToUpdate (debugLog cfg m w) = queriesToUpdate w"
  "inflightRequests (debugLog cfg m w) = inflightRequests w"
  by (simp_all add: debugLog_def)

lemma read_frame [simp]:
  "store (snd (read cfg k w)) = store w"
  "queriesToUpdate (snd (read cfg k w)) = queriesToUpdate w"
  "inflightRequests (snd (read cfg k w)) = inflightRequests w"
  by (simp_all add: read_def split: sum.splits)

lemma write_frame [simp]:
  "queriesToUpdate (write' cfg k d w) = queriesToUpdate w"
  "inflightRequests (write' cfg k d w) = inflightRequests w"
  by (simp_all add: write'_def split: prod.splits option.splits)

lemma write_readOnly [simp]: "readOnly cfg \<Longrightarrow> store (write' cfg k d w) = store w"
  by (simp add: write'_def)

lemma set_request_frame [simp]:
  "store (set_request k v w) = store w"
  "queriesToUpdate (set_request k v w) = queriesToUpdate w"
  by (simp_all add: set_request_def)

lemma addQuery_frame [simp]:
  "store (snd (addQuery dbg n k w)) = store w"
  "inflightRequests (snd (addQuery dbg n k w)) = inflightRequests w"
  by (simp_all add: addQuery_def Let_def split: tracked_value.splits)

lemma removeQuery_frame [simp]:
  "store (snd (removeQuery dbg n k w)) = store w"
  "inflightRequests (snd (removeQuery dbg n k w)) = inflightRequests w"
  by (simp_all add: removeQuery_def Let_def split: tracked_value.splits option.splits)

lemma isWatched_iff: "isWatched m n \<longleftrightarrow> n \<in> set (getMutationNames m)"
  by (simp add: isWatched_def getMutationNames_def map_of_eq_None_iff)

lemma isQueryRelated_iff:
  "isQueryRelated cfg n \<longleftrightarrow> n \<in> set (getAllRegisteredQueryNames (mutationQueryResolverMap cfg))"
  by (simp add: isQueryRelated_def list_ex_iff)

subsection \<open>Snapshots after an optimistic mutation resolves\<close>

text \<open>
  C1: every snapshot recorded for the affected cache keys of a watched optimistic mutation
  should be cleared when the mutation resolves, so that \<open>getBeforeState\<close> returns the
  absent marker for each affected key. On the success path the code clears the entry of
  the operation name instead: in the scenario, \<open>ListItems\<close> is the affected key of
  \<open>AddItem\<close>, its snapshot is taken on entry, and after the successful resolution the
  snapshot is still there, while after a failed resolution it is gone.
\<close>

theorem optimistic_success_leaves_snapshot:
  "getCachedQueryKeysToUpdate demo_cfg ''AddItem'' w_tracked = Inr [listItems_key]
   \<and> getBeforeState (ObjectKey listItems_key) w_optimistic = Some [(''items'', JArr [JStr ''A''])]
   \<and> getBeforeState (ObjectKey listItems_key) w_confirmed = Some [(''items'', JArr [JStr ''A''])]
   \<and> getBeforeState (ObjectKey listItems_key) w_reverted = None"
  by code_simp

subsection \<open>The cache after a confirmed optimistic mutation\<close>

lemma optimistic_success_keeps_store:
  assumes "getMainDefinition (op_query operation) = Inr defn"
      and "operation_of defn = Some OpMutation"
      and "isOptimistic (op_context operation)"
  shows "store (snd (request_result cfg operation (Succeeded payload) w)) = store w"
  using assms
  by (simp add: request_result_def Let_def isSuccessfulQuery_def isSuccessfulMutation_def
        isFailedMutation_def isSuccessful_def clearOptimisticRequest_def)

text \<open>
  C2, as the code has it: in the scenario the cache holds \<open>{items: [A]}\<close>, the
  optimistic \<open>AddItem\<close> makes it \<open>{items: [A, B]}\<close>, and the successful resolution with
  the server's item leaves it at \<open>{items: [A, B]}\<close>: the step that clears the snapshot
  writes nothing.
\<close>

theorem confirmed_optimistic_keeps_prediction:
  "cache_readQuery simple_api (store w_seeded) listItems_key
     = Inr (Some [(''items'', JArr [JStr ''A''])])
   \<and> cache_readQuery simple_api (store w_optimistic) listItems_key
     = Inr (Some [(''items'', JArr [JStr ''A'', JStr ''B''])])
   \<and> cache_readQuery simple_api (store w_confirmed) listItems_key
     = Inr (Some [(''items'', JArr [JStr ''A'', JStr ''B''])])"
  by code_simp

text \<open>
  C2, as the spec states it, fails: after the successful resolution the cached entry of
  \<open>ListItems\<close> is not \<open>{items: [A, B']}\<close>.
\<close>

theorem confirmed_optimistic_not_server_item:
  "cache_readQuery simple_api (store w_confirmed) listItems_key
     \<noteq> Inr (Some [(''items'', JArr [JStr ''A'', JStr ''B1''])])"
  by code_simp

subsection \<open>The tracker\<close>

text \<open>
  C3: \<open>removeQuery\<close> should be a no-op for a query name that was never tracked. On a
  tracker with no entry for \<open>ListItems\<close> the code throws a \<open>TypeError\<close>.
\<close>

theorem removeQuery_untracked_throws:
  "removeQuery False ''ListItems'' listItems_key w_seeded = (Inl TypeError, w_seeded)"
  by code_simp




subsection \<open>Eviction\<close>

text \<open>
  C4: \<open>evict\<close> should evict the store field of every top-level field of the key's
  query. For a query with the fields \<open>items\<close> and \<open>users\<close>, both in the store, the code
  evicts \<open>items\<close>, returns true, and leaves \<open>users\<close> in the store: once \<open>evicted\<close> is
  true the store's \<open>evict\<close> is no longer called.
\<close>

theorem evict_stops_after_first_eviction:
  "evict demo_cfg two_fields_key w_two_fields
     = (Inr (Some True), w_two_fields\<lparr>store := \<lparr>results = [], rootFields = [''users'']\<rparr>\<rparr>)"
  by code_simp

text \<open>
  C5: the debug flag should not change what an operation returns. With the flag off,
  \<open>evict\<close> on the two-field query returns true; with the flag on, the same call throws
  a \<open>ReferenceError\<close>.
\<close>

theorem evict_debug_throws:
  "fst (evict (demo_cfg\<lparr>debug := True\<rparr>) two_fields_key w_two_fields) = Inl ReferenceError
   \<and> fst (evict (demo_cfg\<lparr>debug := False\<rparr>) two_fields_key w_two_fields) = Inr (Some True)"
  by code_simp

subsection \<open>Anonymous operations\<close>

text \<open>
  C10: an operation whose main definition has no name is handled under the empty
  operation name. Unless the empty string is a registered query name or a registered
  mutation name, neither part of \<open>request\<close> tracks anything or starts the handling of a
  watched mutation: the state is unchanged, nothing is thrown, and the result is passed
  through.
\<close>

theorem anonymous_operation_passes_through:
  assumes "getMainDefinition (op_query operation) = Inr (OperationDefinition kind None sels)"
      and "'''' \<notin> set (getAllRegisteredQueryNames (mutationQueryResolverMap cfg))"
      and "'''' \<notin> set (getMutationNames (mutationQueryResolverMap cfg))"
  shows "operationName_of (OperationDefinition kind None sels) = ''''
     \<and> request_enter cfg operation w = (Inr (), w)
     \<and> request_result cfg operation result w = (Inr result, w)
     \<and> request cfg operation result w = (Inr result, w)"
proof -
  have n: "operationName_of (OperationDefinition kind None sels) = ''''"
    by (simp add: operationName_of_def)
  have nw: "\<not> isWatched (mutationQueryResolverMap cfg) ''''"
    using assms(3) by (simp add: isWatched_iff)
  have nr: "\<not> isQueryRelated cfg ''''"
    using assms(2) by (simp add: isQueryRelated_iff)
  have e: "request_enter cfg operation w = (Inr (), w)"
    using assms(1) nw by (simp add: request_enter_def n Let_def)
  have r: "request_result cfg operation result w = (Inr result, w)"
    using assms(1) nw nr by (simp add: request_result_def n Let_def)
  have "request cfg operation result w = (Inr result, w)"
    by (simp add: request_def e r)
  with n e r show ?thesis by simp
qed

theorem anonymous_operation_witness:
  "getMainDefinition (op_query anonymous_operation)
     = Inr (OperationDefinition OpQuery None [Field ''items'' [] []])
   \<and> '''' \<notin> set (getAllRegisteredQueryNames (mutationQueryResolverMap demo_cfg))
   \<and> '''' \<notin> set (getMutationNames (mutationQueryResolverMap demo_cfg))
   \<and> request_enter demo_cfg anonymous_operation w_tracked = (Inr (), w_tracked)
   \<and> request demo_cfg anonymous_operation (Succeeded JNull) w_tracked
       = (Inr (Succeeded JNull), w_tracked)"
proof -
  have a: "getMainDefinition (op_query anonymous_operation)
     = Inr (OperationDefinition OpQuery None [Field ''items'' [] []])"
    by code_simp
  have b: "'''' \<notin> set (getAllRegisteredQueryNames (mutationQueryResolverMap demo_cfg))"
    by code_simp
  have c: "'''' \<notin> set (getMutationNames (mutationQueryResolverMap demo_cfg))"
    by code_simp
  from anonymous_operation_passes_through [OF a b c, of w_tracked "Succeeded JNull"] a b c
  show ?thesis by blast
qed

subsection \<open>Read-only mode\<close>

lemma read_readOnly [simp]: "read (cfg\<lparr>readOnly := b\<rparr>) k w = read cfg k w"
  by (simp add: read_def)

lemma debugLog_readOnly [simp]: "debugLog (cfg\<lparr>readOnly := b\<rparr>) m w = debugLog cfg m w"
  by (simp add: debugLog_def)

lemma getUpdateAfterMutation_readOnly [simp]:
  "getUpdateAfterMutation (cfg\<lparr>readOnly := b\<rparr>) operation res k w
     = getUpdateAfterMutation cfg operation res k w"
  by (simp add: getUpdateAfterMutation_def removeRelatedQuery_def
        cong: sum.case_cong prod.case_cong option.case_cong)

lemma itemsToWrite_readOnly [simp]:
  "itemsToWrite (cfg\<lparr>readOnly := b\<rparr>) operation res keys items w
     = itemsToWrite cfg operation res keys items w"
  by (induction keys arbitrary: items w) (simp_all split: prod.splits sum.splits option.splits)

lemma getCachedQueryKeysToUpdate_readOnly [simp]:
  "getCachedQueryKeysToUpdate (cfg\<lparr>readOnly := b\<rparr>) n w = getCachedQueryKeysToUpdate cfg n w"
  by (simp add: getCachedQueryKeysToUpdate_def)

lemma getQueryKeysToUpdate_cong:
  "queriesToUpdate w1 = queriesToUpdate w2 \<Longrightarrow>
   getQueryKeysToUpdate n w1 = getQueryKeysToUpdate n w2"
  by (simp add: getQueryKeysToUpdate_def)

lemma getCachedQueryKeysToUpdate_cong:
  "queriesToUpdate w1 = queriesToUpdate w2 \<Longrightarrow>
   getCachedQueryKeysToUpdate cfg n w1 = getCachedQueryKeysToUpdate cfg n w2"
  by (simp add: getCachedQueryKeysToUpdate_def getQueryKeysToUpdate_cong [of w1 w2]
        cong: sum.case_cong)

lemma foldl_write_frame [simp]:
  "queriesToUpdate (foldl (\<lambda>w3 item. write' cfg (fst item) (snd item) w3) w items)
     = queriesToUpdate w"
  "inflightRequests (foldl (\<lambda>w3 item. write' cfg (fst item) (snd item) w3) w items)
     = inflightRequests w"
  by (induction items arbitrary: w) simp_all

lemma foldl_write_readOnly [simp]:
  "readOnly cfg \<Longrightarrow>
   store (foldl (\<lambda>w3 item. write' cfg (fst item) (snd item) w3) w items) = store w"
  by (induction items arbitrary: w) simp_all

lemma updateQueriesAfterMutation_readOnly:
  "fst (updateQueriesAfterMutation (cfg\<lparr>readOnly := b\<rparr>) operation n res w)
     = fst (updateQueriesAfterMutation cfg operation n res w)
   \<and> queriesToUpdate (snd (updateQueriesAfterMutation (cfg\<lparr>readOnly := b\<rparr>) operation n res w))
     = queriesToUpdate (snd (updateQueriesAfterMutation cfg operation n res w))
   \<and> inflightRequests (snd (updateQueriesAfterMutation (cfg\<lparr>readOnly := b\<rparr>) operation n res w))
     = inflightRequests (snd (updateQueriesAfterMutation cfg operation n res w))"
  by (simp add: updateQueriesAfterMutation_def performTransaction_def Let_def
        split: prod.splits sum.splits)

lemma addOptimisticRequest_readOnly [simp]:
  "addOptimisticRequest (cfg\<lparr>readOnly := b\<rparr>) n w = addOptimisticRequest cfg n w"
  by (simp add: addOptimisticRequest_def cong: sum.case_cong)

lemma clearOptimisticRequest_readOnly [simp]:
  "clearOptimisticRequest (cfg\<lparr>readOnly := b\<rparr>) k w = clearOptimisticRequest cfg k w"
  by (simp add: clearOptimisticRequest_def)

lemma clearOptimisticRequest_frame [simp]:
  "store (clearOptimisticRequest cfg k w) = store w"
  "queriesToUpdate (clearOptimisticRequest cfg k w) = queriesToUpdate w"
  by (simp_all add: clearOptimisticRequest_def)

lemma clearOptimisticRequest_cong:
  "inflightRequests w1 = inflightRequests w2 \<Longrightarrow>
   inflightRequests (clearOptimisticRequest cfg1 k w1) = inflightRequests (clearOptimisticRequest cfg2 k w2)"
  by (simp add: clearOptimisticRequest_def set_request_def)

lemma getBeforeState_cong:
  "inflightRequests w1 = inflightRequests w2 \<Longrightarrow> getBeforeState k w1 = getBeforeState k w2"
  by (simp add: getBeforeState_def)

lemma getBeforeState_frame [simp]:
  "getBeforeState k (write' cfg q d w) = getBeforeState k w"
  "getBeforeState k (debugLog cfg m w) = getBeforeState k w"
  by (simp_all add: getBeforeState_def)

lemma revert_step_cong:
  assumes "queriesToUpdate w1 = queriesToUpdate w2" "inflightRequests w1 = inflightRequests w2"
  shows "queriesToUpdate
           (clearOptimisticRequest cfg1 k
              (case getBeforeState k w1 of
                 Some d \<Rightarrow> debugLog cfg1 m (write' cfg1 q d w1) | None \<Rightarrow> w1))
         = queriesToUpdate
           (clearOptimisticRequest cfg2 k
              (case getBeforeState k w2 of
                 Some d \<Rightarrow> debugLog cfg2 m (write' cfg2 q d w2) | None \<Rightarrow> w2))"
    and "inflightRequests
           (clearOptimisticRequest cfg1 k
              (case getBeforeState k w1 of
                 Some d \<Rightarrow> debugLog cfg1 m (write' cfg1 q d w1) | None \<Rightarrow> w1))
         = inflightRequests
           (clearOptimisticRequest cfg2 k
              (case getBeforeState k w2 of
                 Some d \<Rightarrow> debugLog cfg2 m (write' cfg2 q d w2) | None \<Rightarrow> w2))"
  using assms getBeforeState_cong [OF assms(2), of k]
  by (auto simp: clearOptimisticRequest_def set_request_def split: option.splits)

lemma revert_loop_cong:
  assumes "queriesToUpdate w1 = queriesToUpdate w2" "inflightRequests w1 = inflightRequests w2"
  shows "queriesToUpdate
           (foldl (\<lambda>w queryKey.
                     clearOptimisticRequest cfg1 (ObjectKey queryKey)
                       (case getBeforeState (ObjectKey queryKey) w of
                          Some d \<Rightarrow> debugLog cfg1 m (write' cfg1 queryKey d w) | None \<Rightarrow> w))
              w1 keys)
         = queriesToUpdate
           (foldl (\<lambda>w queryKey.
                     clearOptimisticRequest cfg2 (ObjectKey queryKey)
                       (case getBeforeState (ObjectKey queryKey) w of
                          Some d \<Rightarrow> debugLog cfg2 m (write' cfg2 queryKey d w) | None \<Rightarrow> w))
              w2 keys)
       \<and> inflightRequests
           (foldl (\<lambda>w queryKey.
                     clearOptimisticRequest cfg1 (ObjectKey queryKey)
                       (case getBeforeState (ObjectKey queryKey) w of
                          Some d \<Rightarrow> debugLog cfg1 m (write' cfg1 queryKey d w) | None \<Rightarrow> w))
              w1 keys)
         = inflightRequests
           (foldl (\<lambda>w queryKey.
                     clearOptimisticRequest cfg2 (ObjectKey queryKey)
                       (case getBeforeState (ObjectKey queryKey) w of
                          Some d \<Rightarrow> debugLog cfg2 m (write' cfg2 queryKey d w) | None \<Rightarrow> w))
              w2 keys)"
  using assms
proof (induction keys arbitrary: w1 w2)
  case Nil
  then show ?case by simp
next
  case (Cons k keys)
  show ?case
    unfolding foldl_Cons
    by (rule Cons.IH) (rule revert_step_cong [OF Cons.prems])+
qed

lemma revertOptimisticRequest_cong:
  assumes "queriesToUpdate w1 = queriesToUpdate w2" "inflightRequests w1 = inflightRequests w2"
  shows "fst (revertOptimisticRequest (cfg\<lparr>readOnly := b\<rparr>) n w1)
           = fst (revertOptimisticRequest cfg n w2)
       \<and> queriesToUpdate (snd (revertOptimisticRequest (cfg\<lparr>readOnly := b\<rparr>) n w1))
           = queriesToUpdate (snd (revertOptimisticRequest cfg n w2))
       \<and> inflightRequests (snd (revertOptimisticRequest (cfg\<lparr>readOnly := b\<rparr>) n w1))
           = inflightRequests (snd (revertOptimisticRequest cfg n w2))"
proof (cases "getCachedQueryKeysToUpdate cfg n w2")
  case (Inl e)
  then show ?thesis
    using assms
    by (simp add: revertOptimisticRequest_def getCachedQueryKeysToUpdate_cong [OF assms(1)])
next
  case (Inr keys)
  then show ?thesis
    using revert_loop_cong [OF assms, of "cfg\<lparr>readOnly := b\<rparr>" _ keys cfg]
    by (simp add: revertOptimisticRequest_def getCachedQueryKeysToUpdate_cong [OF assms(1)])
qed

lemma revertOptimisticRequest_readOnly_store:
  "readOnly cfg \<Longrightarrow> store (snd (revertOptimisticRequest cfg n w)) = store w"
proof -
  assume ro: "readOnly cfg"
  have "store (foldl (\<lambda>w queryKey.
                     clearOptimisticRequest cfg (ObjectKey queryKey)
                       (case getBeforeState (ObjectKey queryKey) w of
                          Some d \<Rightarrow> debugLog cfg m (write' cfg queryKey d w) | None \<Rightarrow> w))
              w keys) = store w" for keys m
    using ro by (induction keys arbitrary: w) (simp_all split: option.splits)
  then show ?thesis by (simp add: revertOptimisticRequest_def split: sum.splits)
qed

lemma read_frameD:
  "read cfg k w = (a, w') \<Longrightarrow>
   store w' = store w \<and> queriesToUpdate w' = queriesToUpdate w
   \<and> inflightRequests w' = inflightRequests w"
  by (auto simp: read_def console_log_def split: sum.splits if_splits)

lemma removeQuery_frameD:
  "removeQuery dbg n k w = (a, w') \<Longrightarrow>
   store w' = store w \<and> inflightRequests w' = inflightRequests w"
  by (auto simp: removeQuery_def console_log_def Let_def
        split: tracked_value.splits option.splits if_splits)

lemma getUpdateAfterMutation_frame [simp]:
  "store (snd (getUpdateAfterMutation cfg operation res k w)) = store w"
  "inflightRequests (snd (getUpdateAfterMutation cfg operation res k w)) = inflightRequests w"
  by (auto simp: getUpdateAfterMutation_def removeRelatedQuery_def
        split: sum.splits prod.splits option.splits
        dest!: read_frameD removeQuery_frameD)

lemma getUpdateAfterMutation_frameD:
  "getUpdateAfterMutation cfg operation res k w = (a, w') \<Longrightarrow>
   store w' = store w \<and> inflightRequests w' = inflightRequests w"
  using getUpdateAfterMutation_frame [of cfg operation res k w] by simp

lemma itemsToWrite_frame [simp]:
  "store (snd (itemsToWrite cfg operation res keys items w)) = store w"
  "inflightRequests (snd (itemsToWrite cfg operation res keys items w)) = inflightRequests w"
  by (induction keys arbitrary: items w)
     (auto split: prod.splits sum.splits option.splits dest!: getUpdateAfterMutation_frameD)

lemma addOptimisticRequest_frame [simp]:
  "store (snd (addOptimisticRequest cfg n w)) = store w"
  "queriesToUpdate (snd (addOptimisticRequest cfg n w)) = queriesToUpdate w"
proof -
  have "store (foldl (\<lambda>w1 queryKey.
                  case read cfg queryKey w1 of
                    (currentCachedState, w2) \<Rightarrow>
                      debugLog cfg m (set_request (ObjectKey queryKey) currentCachedState w2))
           w keys) = store w
     \<and> queriesToUpdate (foldl (\<lambda>w1 queryKey.
                  case read cfg queryKey w1 of
                    (currentCachedState, w2) \<Rightarrow>
                      debugLog cfg m (set_request (ObjectKey queryKey) currentCachedState w2))
           w keys) = queriesToUpdate w" for keys m
    by (induction keys arbitrary: w) (auto split: prod.splits dest!: read_frameD)
  then show "store (snd (addOptimisticRequest cfg n w)) = store w"
    "queriesToUpdate (snd (addOptimisticRequest cfg n w)) = queriesToUpdate w"
    by (simp_all add: addOptimisticRequest_def split: sum.splits)
qed

lemma itemsToWrite_frameD:
  "itemsToWrite cfg operation res keys items w = (a, w') \<Longrightarrow>
   store w' = store w \<and> inflightRequests w' = inflightRequests w"
  using itemsToWrite_frame [of cfg operation res keys items w] by simp

lemma updateQueriesAfterMutation_readOnly_store:
  "readOnly cfg \<Longrightarrow> store (snd (updateQueriesAfterMutation cfg operation n res w)) = store w"
  by (auto simp: updateQueriesAfterMutation_def performTransaction_def Let_def
        split: prod.splits sum.splits dest!: itemsToWrite_frameD)

lemma updateQueriesAfterMutation_readOnly_storeD:
  "readOnly cfg \<Longrightarrow> updateQueriesAfterMutation cfg operation n res w = (a, w') \<Longrightarrow>
   store w' = store w"
  using updateQueriesAfterMutation_readOnly_store [of cfg operation n res w] by simp

lemma request_enter_readOnly_store:
  "readOnly cfg \<Longrightarrow> store (snd (request_enter cfg operation w)) = store w"
  using addOptimisticRequest_frame(1) [of cfg _ w]
  by (auto simp: request_enter_def Let_def case_prod_unfold
        updateQueriesAfterMutation_readOnly_store split: sum.splits)

lemma request_enter_readOnly_storeD:
  "readOnly cfg \<Longrightarrow> request_enter cfg operation w = (a, w') \<Longrightarrow> store w' = store w"
  using request_enter_readOnly_store [of cfg operation w] by simp

lemma request_result_readOnly_store:
  "readOnly cfg \<Longrightarrow> store (snd (request_result cfg operation result w)) = store w"
  by (auto simp: request_result_def Let_def addRelatedQuery_def case_prod_unfold
        revertOptimisticRequest_readOnly_store updateQueriesAfterMutation_readOnly_store
        split: sum.splits)

lemma request_readOnly_store:
  "readOnly cfg \<Longrightarrow> store (snd (request cfg operation result w)) = store w"
  by (auto simp: request_def request_result_readOnly_store split: prod.splits sum.splits
        dest: request_enter_readOnly_storeD)

lemma request_enter_readOnly:
  "fst (request_enter (cfg\<lparr>readOnly := b\<rparr>) operation w) = fst (request_enter cfg operation w)
   \<and> queriesToUpdate (snd (request_enter (cfg\<lparr>readOnly := b\<rparr>) operation w))
       = queriesToUpdate (snd (request_enter cfg operation w))
   \<and> inflightRequests (snd (request_enter (cfg\<lparr>readOnly := b\<rparr>) operation w))
       = inflightRequests (snd (request_enter cfg operation w))"
  by (simp add: request_enter_def Let_def case_prod_unfold updateQueriesAfterMutation_readOnly
        split: sum.splits)

lemma addQuery_cong:
  "queriesToUpdate w1 = queriesToUpdate w2 \<Longrightarrow>
   fst (addQuery dbg n k w1) = fst (addQuery dbg n k w2)
   \<and> queriesToUpdate (snd (addQuery dbg n k w1)) = queriesToUpdate (snd (addQuery dbg n k w2))"
  by (simp add: addQuery_def Let_def getQueryKeysToUpdate_def
        split: tracked_value.splits option.splits)

lemma isQueryRelated_readOnly [simp]:
  "isQueryRelated (cfg\<lparr>readOnly := b\<rparr>) n = isQueryRelated cfg n"
  by (simp add: isQueryRelated_def)

lemma request_result_readOnly:
  "fst (request_result (cfg\<lparr>readOnly := b\<rparr>) operation result w)
       = fst (request_result cfg operation result w)
   \<and> queriesToUpdate (snd (request_result (cfg\<lparr>readOnly := b\<rparr>) operation result w))
       = queriesToUpdate (snd (request_result cfg operation result w))
   \<and> inflightRequests (snd (request_result (cfg\<lparr>readOnly := b\<rparr>) operation result w))
       = inflightRequests (snd (request_result cfg operation result w))"
proof (cases "getMainDefinition (op_query operation)")
  case (Inl e)
  then show ?thesis by (simp add: request_result_def)
next
  case (Inr defn)
  note u = updateQueriesAfterMutation_readOnly
    [where cfg = cfg and b = b and operation = operation and n = "operationName_of defn"
       and res = "result_payload result" and w = w]
  note r = revertOptimisticRequest_cong
    [where ?w1.0 = w and ?w2.0 = w and cfg = cfg and b = b and n = "operationName_of defn"]
  from Inr u r show ?thesis
    by (simp add: request_result_def Let_def addRelatedQuery_def case_prod_unfold
          split: sum.splits)
qed

lemma request_result_optimistic_cong:
  assumes q: "queriesToUpdate w1 = queriesToUpdate w2"
      and i: "inflightRequests w1 = inflightRequests w2"
      and o: "isOptimistic (op_context operation)"
  shows "fst (request_result (cfg\<lparr>readOnly := b\<rparr>) operation result w1)
           = fst (request_result cfg operation result w2)
       \<and> queriesToUpdate (snd (request_result (cfg\<lparr>readOnly := b\<rparr>) operation result w1))
           = queriesToUpdate (snd (request_result cfg operation result w2))
       \<and> inflightRequests (snd (request_result (cfg\<lparr>readOnly := b\<rparr>) operation result w1))
           = inflightRequests (snd (request_result cfg operation result w2))"
proof (cases "getMainDefinition (op_query operation)")
  case (Inl e)
  then show ?thesis using q i by (simp add: request_result_def)
next
  case (Inr defn)
  note r = revertOptimisticRequest_cong [OF q i, where cfg = cfg and b = b
      and n = "operationName_of defn"]
  note a = addQuery_cong [of "debugLog cfg ''Found a successful query related to a watched mutation'' w1"
      "debugLog cfg ''Found a successful query related to a watched mutation'' w2"
      False "operationName_of defn" "createKey operation"]
  note c = clearOptimisticRequest_cong [OF i, of cfg "StringKey (operationName_of defn)" cfg]
  from Inr o q i r a c show ?thesis
    by (simp add: request_result_def Let_def addRelatedQuery_def case_prod_unfold
          split: sum.splits)
qed

lemma request_readOnly:
  "fst (request (cfg\<lparr>readOnly := b\<rparr>) operation result w) = fst (request cfg operation result w)
   \<and> queriesToUpdate (snd (request (cfg\<lparr>readOnly := b\<rparr>) operation result w))
       = queriesToUpdate (snd (request cfg operation result w))
   \<and> inflightRequests (snd (request (cfg\<lparr>readOnly := b\<rparr>) operation result w))
       = inflightRequests (snd (request cfg operation result w))"
proof (cases "getMainDefinition (op_query operation)")
  case (Inl e)
  then show ?thesis by (simp add: request_def request_enter_def)
next
  case (Inr defn)
  show ?thesis
  proof (cases "isOptimistic (op_context operation)
                \<and> isWatched (mutationQueryResolverMap cfg) (operationName_of defn)")
    case False
    with Inr have "request_enter (cfg\<lparr>readOnly := b\<rparr>) operation w = (Inr (), w)"
      "request_enter cfg operation w = (Inr (), w)"
      by (auto simp: request_enter_def Let_def)
    then show ?thesis
      using request_result_readOnly [where cfg = cfg and b = b and operation = operation and result = result and w = w] by (simp add: request_def)
  next
    case True
    define p1 where "p1 = request_enter (cfg\<lparr>readOnly := b\<rparr>) operation w"
    define p2 where "p2 = request_enter cfg operation w"
    from request_enter_readOnly [where cfg = cfg and b = b and operation = operation and w = w]
    have e: "fst p1 = fst p2" "queriesToUpdate (snd p1) = queriesToUpdate (snd p2)"
      "inflightRequests (snd p1) = inflightRequests (snd p2)"
      by (simp_all add: p1_def p2_def)
    from True have o: "isOptimistic (op_context operation)" by simp
    note rr = request_result_optimistic_cong [OF e(2) e(3) o, where cfg = cfg and b = b and result = result]
    have r1: "request (cfg\<lparr>readOnly := b\<rparr>) operation result w
          = (case fst p1 of Inl e \<Rightarrow> (Inl e, snd p1)
             | Inr _ \<Rightarrow> request_result (cfg\<lparr>readOnly := b\<rparr>) operation result (snd p1))"
      by (simp add: request_def p1_def case_prod_unfold cong: sum.case_cong)
    have r2: "request cfg operation result w
          = (case fst p2 of Inl e \<Rightarrow> (Inl e, snd p2)
             | Inr _ \<Rightarrow> request_result cfg operation result (snd p2))"
      by (simp add: request_def p2_def case_prod_unfold cong: sum.case_cong)
    show ?thesis
      unfolding r1 r2 using e rr by (simp split: sum.splits)
  qed
qed

text \<open>
  C9: in read-only mode \<open>write\<close> leaves the store as it is and \<open>evict\<close> returns
  false without touching it, and so does a whole \<open>request\<close>. What \<open>request\<close>
  returns or throws, the tracker and the snapshot store are the same as with the flag
  off, for the whole request and for the handling of a result from any state.
\<close>

theorem read_only_mode:
  assumes "readOnly cfg"
  shows "store (write' cfg key d w) = store w
     \<and> fst (evict cfg key w) = Inr (Some False)
     \<and> store (snd (evict cfg key w)) = store w
     \<and> store (snd (request cfg operation result w)) = store w
     \<and> fst (request cfg operation result w)
         = fst (request (cfg\<lparr>readOnly := False\<rparr>) operation result w)
     \<and> queriesToUpdate (snd (request cfg operation result w))
         = queriesToUpdate (snd (request (cfg\<lparr>readOnly := False\<rparr>) operation result w))
     \<and> inflightRequests (snd (request cfg operation result w))
         = inflightRequests (snd (request (cfg\<lparr>readOnly := False\<rparr>) operation result w))
     \<and> queriesToUpdate (snd (request_result cfg operation result w))
         = queriesToUpdate (snd (request_result (cfg\<lparr>readOnly := False\<rparr>) operation result w))
     \<and> inflightRequests (snd (request_result cfg operation result w))
         = inflightRequests (snd (request_result (cfg\<lparr>readOnly := False\<rparr>) operation result w))"
proof -
  from assms have c: "(cfg\<lparr>readOnly := False\<rparr>)\<lparr>readOnly := True\<rparr> = cfg"
    by simp
  have e: "fst (evict cfg key w) = Inr (Some False)" "store (snd (evict cfg key w)) = store w"
    using assms by (simp_all add: evict_def)
  note r = request_readOnly [where cfg = "cfg\<lparr>readOnly := False\<rparr>" and b = True
      and operation = operation and result = result and w = w, unfolded c]
  note rr = request_result_readOnly [where cfg = "cfg\<lparr>readOnly := False\<rparr>" and b = True
      and operation = operation and result = result and w = w, unfolded c]
  from assms e r rr request_readOnly_store [OF assms, of operation result w]
  show ?thesis by simp
qed

theorem read_only_mode_witness:
  "readOnly (demo_cfg\<lparr>readOnly := True\<rparr>)
   \<and> store (write' (demo_cfg\<lparr>readOnly := True\<rparr>) listItems_key [(''items'', JArr [])] w_tracked)
       = store w_tracked
   \<and> store (snd (request (demo_cfg\<lparr>readOnly := True\<rparr>) addItem_operation
                   (Failed JNull) w_tracked)) = store w_tracked
   \<and> inflightRequests (snd (request (demo_cfg\<lparr>readOnly := True\<rparr>) addItem_operation
                   (Failed JNull) w_tracked))
       = inflightRequests (snd (request (demo_cfg\<lparr>readOnly := True, readOnly := False\<rparr>)
                   addItem_operation (Failed JNull) w_tracked))"
proof -
  have h: "readOnly (demo_cfg\<lparr>readOnly := True\<rparr>)" by simp
  from read_only_mode [OF h, of listItems_key "[(''items'', JArr [])]" w_tracked
      addItem_operation "Failed JNull"] h
  show ?thesis by blast
qed

subsection \<open>The tracker invariant and removals\<close>

lemma getQueryKeysToUpdate_own:
  "map_of (queriesToUpdate w) n = Some ks \<Longrightarrow> getQueryKeysToUpdate n w = Keys ks"
  by (simp add: getQueryKeysToUpdate_def)

lemma getQueryKeysToUpdate_Keys:
  "getQueryKeysToUpdate n w = Keys ks \<Longrightarrow> ks = own_keys n w"
  by (auto simp: getQueryKeysToUpdate_def own_keys_def split: option.splits if_splits)

lemma getQueryKeysToUpdate_Inherited:
  "getQueryKeysToUpdate n w = Inherited m \<Longrightarrow> map_of (queriesToUpdate w) n = None"
  by (auto simp: getQueryKeysToUpdate_def split: option.splits if_splits)

text \<open>
  The \<open>reduce\<close> of \<open>getCachedQueryKeysToUpdate\<close>: an error stays, and a list grows by
  the keys stored under each name unless a name yields an inherited value.
\<close>

lemma collect_keys_Inl:
  "foldl (\<lambda>acc queryName.
            case acc of
              Inl e \<Rightarrow> Inl e
            | Inr queryCacheKeyList \<Rightarrow>
                (case getQueryKeysToUpdate queryName w of
                   Keys relevantQueryCacheKeys \<Rightarrow> Inr (queryCacheKeyList @ relevantQueryCacheKeys)
                 | Inherited _ \<Rightarrow> Inl TypeError))
     (Inl e) names = Inl e"
  by (induction names) simp_all

lemma collect_keys_Inr:
  "foldl (\<lambda>acc queryName.
            case acc of
              Inl e \<Rightarrow> Inl e
            | Inr queryCacheKeyList \<Rightarrow>
                (case getQueryKeysToUpdate queryName w of
                   Keys relevantQueryCacheKeys \<Rightarrow> Inr (queryCacheKeyList @ relevantQueryCacheKeys)
                 | Inherited _ \<Rightarrow> Inl TypeError))
     (Inr a) names
   = (if \<forall>q\<in>set names. getQueryKeysToUpdate q w = Keys (own_keys q w)
      then Inr (a @ concat (map (\<lambda>q. own_keys q w) names))
      else Inl TypeError)"
proof (induction names arbitrary: a)
  case Nil
  show ?case by simp
next
  case (Cons q names)
  show ?case
  proof (cases "getQueryKeysToUpdate q w")
    case (Keys ks)
    with getQueryKeysToUpdate_Keys [OF Keys] Cons.IH [of "a @ ks"] show ?thesis
      by simp
  next
    case (Inherited m)
    then show ?thesis by (simp add: collect_keys_Inl)
  qed
qed

lemma getCachedQueryKeysToUpdate_eq:
  "getCachedQueryKeysToUpdate cfg n w
     = (if \<forall>q\<in>set (getRegisteredQueryNames (mutationQueryResolverMap cfg) n).
             getQueryKeysToUpdate q w = Keys (own_keys q w)
        then Inr (concat (map (\<lambda>q. own_keys q w)
                            (getRegisteredQueryNames (mutationQueryResolverMap cfg) n)))
        else Inl TypeError)"
  by (simp add: getCachedQueryKeysToUpdate_def Let_def collect_keys_Inr)

lemma getCachedQueryKeysToUpdate_concat:
  "getCachedQueryKeysToUpdate cfg n w = Inr keys \<Longrightarrow>
   keys = concat (map (\<lambda>q. own_keys q w)
                    (getRegisteredQueryNames (mutationQueryResolverMap cfg) n))"
  by (simp add: getCachedQueryKeysToUpdate_eq split: if_splits)

text \<open>
  Whether a name yields an array depends on which names have an entry; as long as these
  stay, \<open>getCachedQueryKeysToUpdate\<close> keeps returning.
\<close>

lemma getQueryKeysToUpdate_Keys_stable:
  assumes "\<And>q. (map_of (queriesToUpdate w') q = None) = (map_of (queriesToUpdate w) q = None)"
      and "getQueryKeysToUpdate n w = Keys (own_keys n w)"
  shows "getQueryKeysToUpdate n w' = Keys (own_keys n w')"
  using assms(2) assms(1) [of n]
  by (auto simp: getQueryKeysToUpdate_def own_keys_def split: option.splits if_splits)

lemma getCachedQueryKeysToUpdate_stable:
  assumes "\<And>q. (map_of (queriesToUpdate w') q = None) = (map_of (queriesToUpdate w) q = None)"
      and "getCachedQueryKeysToUpdate cfg n w = Inr keys"
  shows "getCachedQueryKeysToUpdate cfg n w'
           = Inr (concat (map (\<lambda>q. own_keys q w')
                            (getRegisteredQueryNames (mutationQueryResolverMap cfg) n)))"
proof -
  from assms(2)
  have "\<forall>q\<in>set (getRegisteredQueryNames (mutationQueryResolverMap cfg) n).
          getQueryKeysToUpdate q w = Keys (own_keys q w)"
    by (simp add: getCachedQueryKeysToUpdate_eq split: if_splits)
  then have "\<forall>q\<in>set (getRegisteredQueryNames (mutationQueryResolverMap cfg) n).
          getQueryKeysToUpdate q w' = Keys (own_keys q w')"
    using getQueryKeysToUpdate_Keys_stable [OF assms(1)] by blast
  then show ?thesis by (simp add: getCachedQueryKeysToUpdate_eq)
qed

lemma read_value_cong: "store w1 = store w2 \<Longrightarrow> read_value cfg w1 k = read_value cfg w2 k"
  by (simp add: read_value_def read_def split: sum.splits)

lemma tracked_okD:
  assumes "tracked_ok w" "map_of (queriesToUpdate w) n = Some ks"
  shows "distinct (map key_stringify ks)"
    and "\<forall>k\<in>set ks. getQueryName (key_query k) = Inr n"
proof -
  from assms(2) have "(n, ks) \<in> set (queriesToUpdate w)" by (rule map_of_SomeD)
  with assms(1) show "distinct (map key_stringify ks)"
    "\<forall>k\<in>set ks. getQueryName (key_query k) = Inr n"
    by (auto simp: tracked_ok_def list_all_iff)
qed

lemma tracked_ok_cong: "queriesToUpdate w1 = queriesToUpdate w2 \<Longrightarrow> tracked_ok w1 = tracked_ok w2"
  by (simp add: tracked_ok_def)

lemma in_own_keysD:
  "k \<in> set (own_keys n w) \<Longrightarrow>
   \<exists>ks. map_of (queriesToUpdate w) n = Some ks \<and> k \<in> set ks \<and> own_keys n w = ks"
  by (cases "map_of (queriesToUpdate w) n") (auto simp: own_keys_def)

lemma tracked_name:
  assumes "tracked_ok w" "k \<in> set (own_keys n w)"
  shows "getQueryName (key_query k) = Inr n"
proof -
  from in_own_keysD [OF assms(2)]
  obtain ks where "map_of (queriesToUpdate w) n = Some ks" "k \<in> set ks" by blast
  with tracked_okD(2) [OF assms(1)] show ?thesis by blast
qed

lemma tracked_removable:
  assumes "tracked_ok w" "k \<in> set (own_keys n w)"
  shows "removable w k"
proof -
  from in_own_keysD [OF assms(2)]
  obtain ks where ks: "map_of (queriesToUpdate w) n = Some ks" "k \<in> set ks"
    "own_keys n w = ks"
    by blast
  from tracked_okD [OF assms(1) ks(1)]
  have d: "distinct (map key_stringify ks)" and n: "getQueryName (key_query k) = Inr n"
    using ks(2) by auto
  from d have "inj_on key_stringify (set ks)" by (simp add: distinct_map)
  with ks(2) have "\<forall>x\<in>set ks. key_stringify x = key_stringify k \<longrightarrow> x = k"
    by (auto dest: inj_onD)
  with n ks show ?thesis by (simp add: removable_def list_all_iff)
qed

lemma set_update_subset: "set (AList.update k v al) \<subseteq> insert (k, v) (set al)"
  by (induction al) auto

lemma tracked_ok_update:
  assumes "tracked_ok w" "distinct (map key_stringify ks)"
    "\<forall>k\<in>set ks. getQueryName (key_query k) = Inr n"
  shows "tracked_ok (w\<lparr>queriesToUpdate := AList.update n ks (queriesToUpdate w)\<rparr>)"
  using assms set_update_subset [of n ks "queriesToUpdate w"]
  by (auto simp: tracked_ok_def list_all_iff)

lemma filter_length_eq:
  assumes "length (filter P xs) = length xs"
  shows "filter P xs = xs"
proof (rule filter_True)
  show "\<forall>x\<in>set xs. P x"
  proof (rule ccontr)
    assume "\<not> (\<forall>x\<in>set xs. P x)"
    then obtain x where "x \<in> set xs" "\<not> P x" by blast
    then have "length (filter P xs) < length xs" by (rule length_filter_less)
    with assms show False by simp
  qed
qed

lemma removeQuery_removable:
  assumes g: "getQueryName (key_query k) = Inr n"
      and r: "removable w k"
  shows "fst (removeQuery dbg n k w) = Inr ()"
    and "own_keys n' (snd (removeQuery dbg n k w))
           = (if n' = n then removeAll k (own_keys n w)
              else own_keys n' w)"
    and "(map_of (queriesToUpdate (snd (removeQuery dbg n k w))) n' = None)
           = (map_of (queriesToUpdate w) n' = None)"
proof -
  from g r obtain ks where ks: "map_of (queriesToUpdate w) n = Some ks"
    and u: "\<forall>x\<in>set ks. key_stringify x = key_stringify k \<longrightarrow> x = k"
    by (auto simp: removable_def list_all_iff own_keys_def)
  have gq: "own_keys n w = ks"
    by (simp add: own_keys_def ks)
  note gk = getQueryKeysToUpdate_own [OF ks]
  have f: "filter (\<lambda>key. key_stringify key \<noteq> key_stringify k) ks = removeAll k ks"
    unfolding removeAll_filter_not_eq using u by (intro filter_cong) auto
  show "fst (removeQuery dbg n k w) = Inr ()"
    by (simp add: removeQuery_def Let_def ks gk)
  show "own_keys n' (snd (removeQuery dbg n k w))
           = (if n' = n then removeAll k (own_keys n w)
              else own_keys n' w)"
  proof (cases "length ks = length (removeAll k ks)")
    case True
    from True [symmetric] have e: "removeAll k ks = ks"
      unfolding removeAll_filter_not_eq by (rule filter_length_eq)
    have "snd (removeQuery dbg n k w) = w"
      by (simp add: removeQuery_def Let_def ks gk f e)
    then show ?thesis
      by (simp add: gq e)
  next
    case False
    then have "snd (removeQuery dbg n k w)
        = (if dbg
           then console_log ''Removed a tracked QueryName + QueryCacheKey combination''
           else id)
            (w\<lparr>queriesToUpdate := AList.update n (removeAll k ks) (queriesToUpdate w)\<rparr>)"
      by (simp add: removeQuery_def Let_def ks gk f)
    then show ?thesis
      by (simp add: own_keys_def update_conv' ks)
  qed
  show "(map_of (queriesToUpdate (snd (removeQuery dbg n k w))) n' = None)
           = (map_of (queriesToUpdate w) n' = None)"
    by (simp add: removeQuery_def Let_def ks gk f update_conv' console_log_def)
qed

lemma removeQuery_tracked_ok:
  assumes "tracked_ok w"
  shows "tracked_ok (snd (removeQuery dbg n k w))"
proof (cases "map_of (queriesToUpdate w) n")
  case None
  with assms show ?thesis
    by (simp add: removeQuery_def Let_def split: tracked_value.splits)
next
  case (Some ks)
  from tracked_okD [OF assms Some]
  have "distinct (map key_stringify (filter (\<lambda>key. key_stringify key \<noteq> key_stringify k) ks))"
    "\<forall>x\<in>set (filter (\<lambda>key. key_stringify key \<noteq> key_stringify k) ks).
        getQueryName (key_query x) = Inr n"
    by (simp_all add: distinct_map_filter)
  from tracked_ok_update [OF assms this] assms Some show ?thesis
    by (simp add: removeQuery_def Let_def getQueryKeysToUpdate_own [OF Some] console_log_def
          tracked_ok_def)
qed

lemma addQuery_tracked_ok:
  assumes "tracked_ok w" "getQueryName (key_query k) = Inr n"
  shows "tracked_ok (snd (addQuery dbg n k w))"
proof (cases "getQueryKeysToUpdate n w")
  case (Inherited m)
  with assms show ?thesis by (simp add: addQuery_def)
next
  case (Keys ks)
  note o = getQueryKeysToUpdate_Keys [OF Keys]
  show ?thesis
  proof (cases "list_ex (\<lambda>key. key_stringify key = key_stringify k) ks")
    case True
    with assms Keys show ?thesis by (simp add: addQuery_def)
  next
    case False
    have d: "distinct (map key_stringify ks)"
      and g: "\<forall>x\<in>set ks. getQueryName (key_query x) = Inr n"
      using tracked_okD [OF assms(1), of n] unfolding o
      by (cases "map_of (queriesToUpdate w) n"; simp add: own_keys_def)+
    from False d have "distinct (map key_stringify (ks @ [k]))"
      by (auto simp: list_ex_iff)
    moreover from g assms(2)
    have "\<forall>x\<in>set (ks @ [k]). getQueryName (key_query x) = Inr n"
      by auto
    ultimately show ?thesis
      using tracked_ok_update [OF assms(1), of "ks @ [k]" n] False Keys
      by (simp add: addQuery_def Let_def console_log_def tracked_ok_def)
  qed
qed

lemma debugLog_derived [simp]:
  "tracked_ok (debugLog cfg m w) = tracked_ok w"
  "removable (debugLog cfg m w) k = removable w k"
  "own_keys n (debugLog cfg m w) = own_keys n w"
  by (simp_all add: tracked_ok_def removable_def own_keys_def cong: sum.case_cong)

lemma debugLog_read_value [simp]:
  "read_value cfg' (debugLog cfg m w) k = read_value cfg' w k"
  by (rule read_value_cong) simp

lemma removable_cong:
  "queriesToUpdate w1 = queriesToUpdate w2 \<Longrightarrow> removable w1 k = removable w2 k"
  by (simp add: removable_def own_keys_def cong: sum.case_cong)

lemma removable_mono:
  assumes "removable w k"
      and "\<And>n. (map_of (queriesToUpdate w') n = None) = (map_of (queriesToUpdate w) n = None)"
      and "\<And>n. set (own_keys n w') \<subseteq> set (own_keys n w)"
  shows "removable w' k"
  using assms
  by (auto simp: removable_def list_all_iff split: sum.splits)

lemma read_snd:
  "snd (read cfg k w) = w \<or> snd (read cfg k w) = console_log ''Error --- Unable to read from cache'' w"
  by (simp add: read_def split: sum.splits)

lemma read_snd_derived [simp]:
  "tracked_ok (snd (read cfg k w)) = tracked_ok w"
  "removable (snd (read cfg k w)) k' = removable w k'"
  "own_keys n (snd (read cfg k w)) = own_keys n w"
  by (simp_all add: tracked_ok_def removable_def own_keys_def cong: sum.case_cong)

lemma read_Some_snd: "fst (read cfg k w) = Some d \<Longrightarrow> snd (read cfg k w) = w"
  by (auto simp: read_def split: sum.splits)

text \<open>A key whose read yields nothing: it is removed and nothing is returned.\<close>

lemma getUpdateAfterMutation_absent:
  assumes t: "tracked_ok w" and r: "removable w k" and a: "read_value cfg w k = None"
  shows "fst (getUpdateAfterMutation cfg operation res k w) = Inr None"
    and "own_keys n' (snd (getUpdateAfterMutation cfg operation res k w))
           = removeAll k (own_keys n' w)"
    and "tracked_ok (snd (getUpdateAfterMutation cfg operation res k w))"
    and "(map_of (queriesToUpdate (snd (getUpdateAfterMutation cfg operation res k w))) n' = None)
           = (map_of (queriesToUpdate w) n' = None)"
proof -
  from r obtain n where n: "getQueryName (key_query k) = Inr n"
    by (auto simp: removable_def split: sum.splits)
  define w1 where "w1 = snd (read cfg k w)"
  have rd: "read cfg k w = (None, w1)"
    using a by (simp add: read_value_def w1_def prod_eq_iff)
  have t1: "tracked_ok w1" and r1: "removable w1 k"
    and g1: "\<And>m. own_keys m w1 = own_keys m w"
    and q1: "queriesToUpdate w1 = queriesToUpdate w"
    using t r by (simp_all add: w1_def)
  define p where "p = removeQuery False n k w1"
  have g: "getUpdateAfterMutation cfg operation res k w
      = (case fst p of Inl e \<Rightarrow> (Inl e, snd p) | Inr _ \<Rightarrow> (Inr None, snd p))"
    by (simp add: getUpdateAfterMutation_def n rd removeRelatedQuery_def p_def case_prod_unfold
          cong: sum.case_cong)
  note rq = removeQuery_removable [OF n r1, where dbg = False, folded p_def]
  from rq(1) have g': "getUpdateAfterMutation cfg operation res k w = (Inr None, snd p)"
    by (simp add: g)
  show "fst (getUpdateAfterMutation cfg operation res k w) = Inr None"
    by (simp add: g')
  show "tracked_ok (snd (getUpdateAfterMutation cfg operation res k w))"
    using removeQuery_tracked_ok [OF t1, where dbg = False and n = n and k = k] by (simp add: g' p_def)
  show "(map_of (queriesToUpdate (snd (getUpdateAfterMutation cfg operation res k w))) n' = None)
           = (map_of (queriesToUpdate w) n' = None)"
    using rq(3) [where n' = n'] by (simp add: g' q1)
  show "own_keys n' (snd (getUpdateAfterMutation cfg operation res k w))
           = removeAll k (own_keys n' w)"
  proof (cases "n' = n")
    case True
    then show ?thesis using rq(2) [where n' = n'] by (simp add: g' g1)
  next
    case False
    have "k \<notin> set (own_keys n' w)"
    proof
      assume "k \<in> set (own_keys n' w)"
      from tracked_name [OF t this] n False show False by simp
    qed
    then have "removeAll k (own_keys n' w) = own_keys n' w"
      by simp
    with False show ?thesis using rq(2) [where n' = n'] by (simp add: g' g1)
  qed
qed

text \<open>A key whose read yields data: the state stays, an item is for this key.\<close>

lemma getUpdateAfterMutation_present:
  assumes "read_value cfg w k = Some d"
  shows "snd (getUpdateAfterMutation cfg operation res k w) = w"
    and "fst (getUpdateAfterMutation cfg operation res k w) = Inr (Some item) \<Longrightarrow> fst item = k"
proof -
  from assms have rd: "read cfg k w = (Some d, w)"
    using read_Some_snd [of cfg k w d] by (simp add: read_value_def prod_eq_iff)
  show "snd (getUpdateAfterMutation cfg operation res k w) = w"
    by (simp add: getUpdateAfterMutation_def rd split: sum.splits option.splits)
  show "fst (getUpdateAfterMutation cfg operation res k w) = Inr (Some item) \<Longrightarrow> fst item = k"
    by (auto simp: getUpdateAfterMutation_def rd split: sum.splits option.splits)
qed

subsection \<open>The update computation\<close>

lemma read_value_frame [simp]:
  "read_value cfg (snd (getUpdateAfterMutation cfg' operation res k w)) x = read_value cfg w x"
  by (rule read_value_cong) simp

lemma itemsToWrite_effect:
  assumes "tracked_ok w"
      and "\<forall>k\<in>set keys. removable w k"
      and "itemsToWrite cfg operation res keys items w = (Inr items', w')"
  shows "tracked_ok w'
     \<and> (\<forall>n. own_keys n w'
              = filter (\<lambda>x. \<not> (x \<in> set keys \<and> read_value cfg w x = None))
                  (own_keys n w))
     \<and> fst ` set items' \<subseteq> fst ` set items \<union> {k \<in> set keys. read_value cfg w k \<noteq> None}"
  using assms
proof (induction keys arbitrary: items w)
  case Nil
  then show ?case by simp
next
  case (Cons k rest)
  define w0 where
    "w0 = debugLog cfg
            ''Found a cached query related to this successful mutation, this Link will invoke the associated callback''
            w"
  define p where "p = getUpdateAfterMutation cfg operation res k w0"
  have t0: "tracked_ok w0" and r0: "removable w0 k"
    and rv0: "\<And>x. read_value cfg w0 x = read_value cfg w x"
    and g0: "\<And>n. own_keys n w0 = own_keys n w"
    using Cons.prems(1,2) by (simp_all add: w0_def)
  have rest0: "\<forall>k'\<in>set rest. removable w0 k'"
    using Cons.prems(2) by (simp add: w0_def)
  have unfold: "itemsToWrite cfg operation res (k # rest) items w
      = (case fst p of
           Inl e \<Rightarrow> (Inl e, snd p)
         | Inr None \<Rightarrow>
             itemsToWrite cfg operation res rest items
               (debugLog cfg
                  ''We did NOT receive anything new to write to the cache so we will not do anything''
                  (snd p))
         | Inr (Some resultToWrite) \<Rightarrow>
             itemsToWrite cfg operation res rest (items @ [resultToWrite]) (snd p))"
    by (simp add: p_def w0_def case_prod_unfold split: sum.splits option.splits)
  note run0 = Cons.prems(3) [unfolded unfold]
  show ?case
  proof (cases "read_value cfg w k")
    case None
    then have a: "read_value cfg w0 k = None" by (simp add: rv0)
    note ab = getUpdateAfterMutation_absent [OF t0 r0 a, where operation = operation and res = res,
        folded p_def]
    define w1 where
      "w1 = debugLog cfg
              ''We did NOT receive anything new to write to the cache so we will not do anything''
              (snd p)"
    from run0 ab(1)
    have run: "itemsToWrite cfg operation res rest items w1 = (Inr items', w')"
      by (simp add: w1_def)
    have t1: "tracked_ok w1" using ab(3) by (simp add: w1_def)
    have g1: "\<And>n. own_keys n w1 = removeAll k (own_keys n w)"
      using ab(2) by (simp add: w1_def g0)
    have rv1: "\<And>x. read_value cfg w1 x = read_value cfg w x"
      by (simp add: w1_def p_def rv0)
    have r1: "\<forall>k'\<in>set rest. removable w1 k'"
    proof
      fix k' assume "k' \<in> set rest"
      with rest0 have "removable w0 k'" by simp
      then have "removable (snd p) k'"
      proof (rule removable_mono)
        show "(map_of (queriesToUpdate (snd p)) n = None) = (map_of (queriesToUpdate w0) n = None)"
          for n by (rule ab(4))
        show "set (own_keys n (snd p)) \<subseteq> set (own_keys n w0)" for n
          by (simp add: ab(2))
      qed
      then show "removable w1 k'" by (simp add: w1_def)
    qed
    from Cons.IH [OF t1 r1 run]
    have ih: "tracked_ok w'"
      "\<And>n. own_keys n w'
              = filter (\<lambda>x. \<not> (x \<in> set rest \<and> read_value cfg w x = None))
                  (removeAll k (own_keys n w))"
      "fst ` set items' \<subseteq> fst ` set items \<union> {k \<in> set rest. read_value cfg w k \<noteq> None}"
      by (simp_all add: g1 rv1)
    have "own_keys n w'
            = filter (\<lambda>x. \<not> (x \<in> set (k # rest) \<and> read_value cfg w x = None))
                (own_keys n w)" for n
      unfolding ih(2) removeAll_filter_not_eq filter_filter
      using None by (intro filter_cong) auto
    with ih(1,3) show ?thesis by auto
  next
    case (Some d)
    then have s: "read_value cfg w0 k = Some d" by (simp add: rv0)
    note pr = getUpdateAfterMutation_present [OF s, where operation = operation and res = res,
        folded p_def]
    have same: "filter (\<lambda>x. \<not> (x \<in> set rest \<and> read_value cfg w x = None)) xs
         = filter (\<lambda>x. \<not> (x \<in> set (k # rest) \<and> read_value cfg w x = None)) xs" for xs
      using Some by (intro filter_cong) auto
    show ?thesis
    proof (cases "fst p")
      case (Inl e)
      with run0 show ?thesis by simp
    next
      case (Inr r)
      show ?thesis
      proof (cases r)
        case None
        define w1 where
          "w1 = debugLog cfg
                  ''We did NOT receive anything new to write to the cache so we will not do anything''
                  w0"
        from run0 Inr None pr(1)
        have run: "itemsToWrite cfg operation res rest items w1 = (Inr items', w')"
          by (simp add: w1_def)
        have t1: "tracked_ok w1" and r1: "\<forall>k'\<in>set rest. removable w1 k'"
          using t0 rest0 by (simp_all add: w1_def)
        from Cons.IH [OF t1 r1 run]
        have ih: "tracked_ok w'"
          "\<And>n. own_keys n w'
              = filter (\<lambda>x. \<not> (x \<in> set rest \<and> read_value cfg w x = None))
                  (own_keys n w)"
          "fst ` set items' \<subseteq> fst ` set items \<union> {k \<in> set rest. read_value cfg w k \<noteq> None}"
          by (simp_all add: w1_def g0 rv0)
        from ih show ?thesis unfolding same by auto
      next
        case (Some item)
        from Inr Some have "fst p = Inr (Some item)" by simp
        from pr(2) [OF this] have ik: "fst item = k" .
        from run0 Inr Some pr(1)
        have run: "itemsToWrite cfg operation res rest (items @ [item]) w0 = (Inr items', w')"
          by simp
        from Cons.IH [OF t0 rest0 run]
        have ih: "tracked_ok w'"
          "\<And>n. own_keys n w'
              = filter (\<lambda>x. \<not> (x \<in> set rest \<and> read_value cfg w x = None))
                  (own_keys n w)"
          "fst ` set items' \<subseteq> fst ` set (items @ [item])
              \<union> {k \<in> set rest. read_value cfg w k \<noteq> None}"
          by (simp_all add: g0 rv0)
        from ih(3) ik \<open>read_value cfg w k = Some d\<close>
        have "fst ` set items' \<subseteq> fst ` set items
              \<union> {k' \<in> set (k # rest). read_value cfg w k' \<noteq> None}"
          by auto
        with ih(1,2) show ?thesis unfolding same by auto
      qed
    qed
  qed
qed

lemma read_value_resolver_map [simp]:
  "read_value (cfg\<lparr>mutationQueryResolverMap := m\<rparr>) w k = read_value cfg w k"
  by (simp add: read_value_def read_def)

lemma affected_removable:
  assumes "tracked_ok w" "getCachedQueryKeysToUpdate cfg n w = Inr keys" "k \<in> set keys"
  shows "removable w k"
  using assms(1,3) unfolding getCachedQueryKeysToUpdate_concat [OF assms(2)]
  by (auto intro: tracked_removable)

lemma updateQueriesAfterMutation_items:
  assumes "updateQueriesAfterMutation cfg operation n res w = (Inr (), w')"
      and "getCachedQueryKeysToUpdate cfg n w = Inr keys"
  obtains items w1 where
    "itemsToWrite cfg operation res keys [] w = (Inr items, w1)"
    "w' = foldl (\<lambda>w3 item. write' cfg (fst item) (snd item) w3) w1 items"
  using assms
  by (auto simp: updateQueriesAfterMutation_def performTransaction_def
        split: prod.splits sum.splits)

lemma updateQueriesAfterMutation_keys:
  assumes "updateQueriesAfterMutation cfg operation n res w = (Inr (), w')"
  obtains keys where "getCachedQueryKeysToUpdate cfg n w = Inr keys"
  using assms by (auto simp: updateQueriesAfterMutation_def split: sum.splits)

lemma itemsToWrite_entries:
  assumes "tracked_ok w"
      and "\<forall>k\<in>set keys. removable w k"
      and "itemsToWrite cfg operation res keys items w = (Inr items', w')"
  shows "(map_of (queriesToUpdate w') q = None) = (map_of (queriesToUpdate w) q = None)"
proof -
  from itemsToWrite_effect [OF assms]
  have g: "\<And>n. own_keys n w'
              = filter (\<lambda>x. \<not> (x \<in> set keys \<and> read_value cfg w x = None)) (own_keys n w)"
    by simp
  have "map_of (queriesToUpdate (snd (itemsToWrite cfg operation res keys items w))) q = None
        \<longleftrightarrow> map_of (queriesToUpdate w) q = None"
    if "tracked_ok w" "\<forall>k\<in>set keys. removable w k" for items w
    using that
  proof (induction keys arbitrary: items w)
    case Nil
    show ?case by simp
  next
    case (Cons k rest)
    define w0 where
      "w0 = debugLog cfg
              ''Found a cached query related to this successful mutation, this Link will invoke the associated callback''
              w"
    define p where "p = getUpdateAfterMutation cfg operation res k w0"
    have t0: "tracked_ok w0" and r0: "removable w0 k"
      and rest0: "\<forall>k'\<in>set rest. removable w0 k'"
      and q0: "queriesToUpdate w0 = queriesToUpdate w"
      using Cons.prems by (simp_all add: w0_def)
    have unfold: "itemsToWrite cfg operation res (k # rest) items w
        = (case fst p of
             Inl e \<Rightarrow> (Inl e, snd p)
           | Inr None \<Rightarrow>
               itemsToWrite cfg operation res rest items
                 (debugLog cfg
                    ''We did NOT receive anything new to write to the cache so we will not do anything''
                    (snd p))
           | Inr (Some resultToWrite) \<Rightarrow>
               itemsToWrite cfg operation res rest (items @ [resultToWrite]) (snd p))"
      by (simp add: p_def w0_def case_prod_unfold split: sum.splits option.splits)
    have sp: "tracked_ok (snd p) \<and> (\<forall>k'\<in>set rest. removable (snd p) k')
        \<and> ((map_of (queriesToUpdate (snd p)) q = None) = (map_of (queriesToUpdate w) q = None))"
    proof (cases "read_value cfg w0 k")
      case None
      note ab = getUpdateAfterMutation_absent [OF t0 r0 None, where operation = operation
          and res = res, folded p_def]
      have "\<forall>k'\<in>set rest. removable (snd p) k'"
      proof
        fix k' assume "k' \<in> set rest"
        with rest0 have "removable w0 k'" by simp
        then show "removable (snd p) k'"
        proof (rule removable_mono)
          show "(map_of (queriesToUpdate (snd p)) n = None)
                  = (map_of (queriesToUpdate w0) n = None)" for n
            by (rule ab(4))
          show "set (own_keys n (snd p)) \<subseteq> set (own_keys n w0)" for n
            by (simp add: ab(2))
        qed
      qed
      with ab(3) ab(4) [of q] show ?thesis by (simp add: q0)
    next
      case (Some d)
      from getUpdateAfterMutation_present(1) [OF Some, where operation = operation
          and res = res, folded p_def]
      show ?thesis using t0 rest0 by (simp add: q0)
    qed
    have d: "tracked_ok (debugLog cfg m (snd p))
        \<and> (\<forall>k'\<in>set rest. removable (debugLog cfg m (snd p)) k')" for m
      using sp by simp
    show ?case
      unfolding unfold using sp d Cons.IH
      by (simp split: sum.splits option.splits)
  qed
  from this [OF assms(1,2), of items] assms(3) show ?thesis by simp
qed

text \<open>
  C8: in the update computation of a watched mutation, run from a state that satisfies
  the tracker's invariant, an affected key whose cache read yields nothing is no longer
  tracked under any name afterwards, is not among the items written, and its step returns
  nothing to write whatever update callbacks are registered (none is called). Affected
  keys whose read yields data are still affected keys afterwards.
\<close>

theorem failed_read_removes_key:
  assumes "tracked_ok w"
      and "updateQueriesAfterMutation cfg operation operationName res w = (Inr (), w')"
      and "getCachedQueryKeysToUpdate cfg operationName w = Inr keys"
      and "k \<in> set keys"
      and "read_value cfg w k = None"
  shows "(\<forall>n ks. getQueryKeysToUpdate n w' = Keys ks \<longrightarrow> k \<notin> set ks)
     \<and> (\<exists>items w1.
           itemsToWrite cfg operation res keys [] w = (Inr items, w1)
           \<and> w' = foldl (\<lambda>w3 item. write' cfg (fst item) (snd item) w3) w1 items
           \<and> k \<notin> fst ` set items)
     \<and> fst (getUpdateAfterMutation (cfg\<lparr>mutationQueryResolverMap := m\<rparr>) operation res k w)
         = Inr None
     \<and> (\<exists>keys'.
           getCachedQueryKeysToUpdate cfg operationName w' = Inr keys'
           \<and> (\<forall>k2\<in>set keys. read_value cfg w k2 \<noteq> None \<longrightarrow> k2 \<in> set keys'))"
proof -
  define names where "names = getRegisteredQueryNames (mutationQueryResolverMap cfg) operationName"
  from updateQueriesAfterMutation_items [OF assms(2,3)]
  obtain items w1 where
    run: "itemsToWrite cfg operation res keys [] w = (Inr items, w1)"
    and w': "w' = foldl (\<lambda>w3 item. write' cfg (fst item) (snd item) w3) w1 items"
    by blast
  have rem: "\<forall>k\<in>set keys. removable w k"
    using affected_removable [OF assms(1,3)] by blast
  from itemsToWrite_effect [OF assms(1) rem run]
  have g1: "\<And>n. own_keys n w1
              = filter (\<lambda>x. \<not> (x \<in> set keys \<and> read_value cfg w x = None)) (own_keys n w)"
    and it: "fst ` set items \<subseteq> {k \<in> set keys. read_value cfg w k \<noteq> None}"
    by simp_all
  have q: "queriesToUpdate w' = queriesToUpdate w1"
    by (simp add: w')
  have g: "\<And>n. own_keys n w'
              = filter (\<lambda>x. \<not> (x \<in> set keys \<and> read_value cfg w x = None)) (own_keys n w)"
    using g1 by (simp add: own_keys_def q)
  have a: "\<forall>n ks. getQueryKeysToUpdate n w' = Keys ks \<longrightarrow> k \<notin> set ks"
  proof (intro allI impI)
    fix n ks assume "getQueryKeysToUpdate n w' = Keys ks"
    from getQueryKeysToUpdate_Keys [OF this] show "k \<notin> set ks"
      using assms(4,5) by (simp add: g)
  qed
  have b: "k \<notin> fst ` set items"
    using it assms(5) by auto
  have c: "fst (getUpdateAfterMutation (cfg\<lparr>mutationQueryResolverMap := m\<rparr>) operation res k w)
         = Inr None"
    by (rule getUpdateAfterMutation_absent(1) [OF assms(1)])
       (simp_all add: rem assms(4,5))
  have e: "(map_of (queriesToUpdate w') n = None) = (map_of (queriesToUpdate w) n = None)" for n
    using itemsToWrite_entries [OF assms(1) rem run, of n] by (simp add: q)
  from getCachedQueryKeysToUpdate_stable [OF e assms(3)]
  have k': "getCachedQueryKeysToUpdate cfg operationName w'
      = Inr (concat (map (\<lambda>q. own_keys q w') names))"
    by (simp add: names_def)
  have k0: "keys = concat (map (\<lambda>q. own_keys q w) names)"
    using getCachedQueryKeysToUpdate_concat [OF assms(3)] by (simp add: names_def)
  have d: "\<forall>k2\<in>set keys. read_value cfg w k2 \<noteq> None \<longrightarrow>
           k2 \<in> set (concat (map (\<lambda>q. own_keys q w') names))"
    unfolding k0 by (auto simp: g k0)
  from a b c d k' run w' show ?thesis by blast
qed

theorem failed_read_removes_key_witness:
  "tracked_ok w_invalidated
   \<and> updateQueriesAfterMutation demo_cfg addItem_operation ''AddItem'' addItem_payload w_invalidated
       = (Inr (), snd (updateQueriesAfterMutation demo_cfg addItem_operation ''AddItem''
                         addItem_payload w_invalidated))
   \<and> getCachedQueryKeysToUpdate demo_cfg ''AddItem'' w_invalidated
       = Inr [listItems_key, listItems_x_key]
   \<and> read_value demo_cfg w_invalidated listItems_key = None
   \<and> read_value demo_cfg w_invalidated listItems_x_key \<noteq> None
   \<and> getQueryKeysToUpdate ''ListItems''
        (snd (updateQueriesAfterMutation demo_cfg addItem_operation ''AddItem''
                addItem_payload w_invalidated))
       = Keys [listItems_x_key]
   \<and> getCachedQueryKeysToUpdate demo_cfg ''AddItem''
        (snd (updateQueriesAfterMutation demo_cfg addItem_operation ''AddItem''
                addItem_payload w_invalidated))
       = Inr [listItems_x_key]"
proof -
  have t: "tracked_ok w_invalidated" by code_simp
  have u: "updateQueriesAfterMutation demo_cfg addItem_operation ''AddItem'' addItem_payload
             w_invalidated
       = (Inr (), snd (updateQueriesAfterMutation demo_cfg addItem_operation ''AddItem''
                         addItem_payload w_invalidated))"
    by code_simp
  have ks: "getCachedQueryKeysToUpdate demo_cfg ''AddItem'' w_invalidated
       = Inr [listItems_key, listItems_x_key]"
    by code_simp
  have k: "listItems_key \<in> set [listItems_key, listItems_x_key]"
    by simp
  have a: "read_value demo_cfg w_invalidated listItems_key = None" by code_simp
  have p: "read_value demo_cfg w_invalidated listItems_x_key \<noteq> None" by code_simp
  have g: "getQueryKeysToUpdate ''ListItems''
        (snd (updateQueriesAfterMutation demo_cfg addItem_operation ''AddItem''
                addItem_payload w_invalidated))
       = Keys [listItems_x_key]"
    by code_simp
  have c: "getCachedQueryKeysToUpdate demo_cfg ''AddItem''
        (snd (updateQueriesAfterMutation demo_cfg addItem_operation ''AddItem''
                addItem_payload w_invalidated))
       = Inr [listItems_x_key]"
    by code_simp
  from failed_read_removes_key [OF t u ks k a] t u ks a p g c
  show ?thesis by simp
qed

subsection \<open>Snapshot and revert\<close>

lemma read_value_simple_api:
  "cache_of cfg = simple_api \<Longrightarrow> read_value cfg w k = map_of (results (store w)) k"
  by (simp add: read_value_def read_def simple_api_def split: option.splits)

lemma write_simple_api:
  "cache_of cfg = simple_api \<Longrightarrow>
   map_of (results (store (write' cfg q d w))) k
     = (if \<not> readOnly cfg \<and> k = q then Some d else map_of (results (store w)) k)"
  by (simp add: write'_def simple_api_def update_conv')

lemma foldl_write_simple_api:
  "cache_of cfg = simple_api \<Longrightarrow> k \<notin> fst ` set items \<Longrightarrow>
   map_of (results (store (foldl (\<lambda>w3 item. write' cfg (fst item) (snd item) w3) w items))) k
     = map_of (results (store w)) k"
  by (induction items arbitrary: w) (auto simp: write_simple_api)

lemma getBeforeState_set_request [simp]:
  "getBeforeState k' (set_request k v w) = (if k' = k then v else getBeforeState k' w)"
  by (simp add: getBeforeState_def set_request_def update_conv')

lemma getBeforeState_clear [simp]:
  "getBeforeState k' (clearOptimisticRequest cfg k w)
     = (if k' = k then None else getBeforeState k' w)"
  by (simp add: clearOptimisticRequest_def)

lemma getBeforeState_read [simp]:
  "getBeforeState k' (snd (read cfg k w)) = getBeforeState k' w"
  by (rule getBeforeState_cong) simp

lemma snapshot_loop:
  "store (foldl (\<lambda>w1 queryKey.
                  case read cfg queryKey w1 of
                    (currentCachedState, w2) \<Rightarrow>
                      debugLog cfg m (set_request (ObjectKey queryKey) currentCachedState w2))
           w keys) = store w
   \<and> getBeforeState (ObjectKey k)
        (foldl (\<lambda>w1 queryKey.
                  case read cfg queryKey w1 of
                    (currentCachedState, w2) \<Rightarrow>
                      debugLog cfg m (set_request (ObjectKey queryKey) currentCachedState w2))
           w keys)
     = (if k \<in> set keys then read_value cfg w k else getBeforeState (ObjectKey k) w)"
proof (induction keys arbitrary: w)
  case Nil
  show ?case by simp
next
  case (Cons q keys)
  define w' where
    "w' = debugLog cfg m (set_request (ObjectKey q) (fst (read cfg q w)) (snd (read cfg q w)))"
  have s: "store w' = store w" by (simp add: w'_def)
  have rv: "read_value cfg w' x = read_value cfg w x" for x
    by (rule read_value_cong) (rule s)
  have g: "getBeforeState (ObjectKey x) w'
        = (if x = q then read_value cfg w q else getBeforeState (ObjectKey x) w)" for x
    by (simp add: w'_def read_value_def)
  have step: "(case read cfg q w of
                 (currentCachedState, w2) \<Rightarrow>
                   debugLog cfg m (set_request (ObjectKey q) currentCachedState w2)) = w'"
    by (simp add: w'_def case_prod_unfold)
  show ?case
    unfolding foldl_Cons step using Cons.IH [of w'] by (auto simp: s rv g)
qed

lemma addOptimisticRequest_snapshot:
  assumes "getCachedQueryKeysToUpdate cfg n w = Inr keys"
  shows "fst (addOptimisticRequest cfg n w) = Inr ()"
    and "getBeforeState (ObjectKey k) (snd (addOptimisticRequest cfg n w))
     = (if k \<in> set keys then read_value cfg w k else getBeforeState (ObjectKey k) w)"
  by (simp_all add: addOptimisticRequest_def assms snapshot_loop)

lemma revert_loop:
  assumes "cache_of cfg = simple_api"
  shows "getBeforeState (ObjectKey k)
        (foldl (\<lambda>w1 queryKey.
                  clearOptimisticRequest cfg (ObjectKey queryKey)
                    (case getBeforeState (ObjectKey queryKey) w1 of
                       Some previousCachedState \<Rightarrow>
                         debugLog cfg m (write' cfg queryKey previousCachedState w1)
                     | None \<Rightarrow> w1))
           w keys)
     = (if k \<in> set keys then None else getBeforeState (ObjectKey k) w)
   \<and> map_of (results (store
        (foldl (\<lambda>w1 queryKey.
                  clearOptimisticRequest cfg (ObjectKey queryKey)
                    (case getBeforeState (ObjectKey queryKey) w1 of
                       Some previousCachedState \<Rightarrow>
                         debugLog cfg m (write' cfg queryKey previousCachedState w1)
                     | None \<Rightarrow> w1))
           w keys))) k
     = (if k \<in> set keys \<and> \<not> readOnly cfg
        then (case getBeforeState (ObjectKey k) w of
                Some d \<Rightarrow> Some d
              | None \<Rightarrow> map_of (results (store w)) k)
        else map_of (results (store w)) k)"
proof (induction keys arbitrary: w)
  case Nil
  show ?case by simp
next
  case (Cons q keys)
  define w' where
    "w' = clearOptimisticRequest cfg (ObjectKey q)
            (case getBeforeState (ObjectKey q) w of
               Some previousCachedState \<Rightarrow>
                 debugLog cfg m (write' cfg q previousCachedState w)
             | None \<Rightarrow> w)"
  have g: "getBeforeState (ObjectKey x) w'
        = (if x = q then None else getBeforeState (ObjectKey x) w)" for x
    by (simp add: w'_def split: option.splits)
  have s: "map_of (results (store w')) x
        = (if x = q \<and> \<not> readOnly cfg
           then (case getBeforeState (ObjectKey x) w of
                   Some d \<Rightarrow> Some d
                 | None \<Rightarrow> map_of (results (store w)) x)
           else map_of (results (store w)) x)" for x
    using assms by (simp add: w'_def write_simple_api split: option.splits)
  show ?case
    unfolding foldl_Cons w'_def [symmetric] using Cons.IH [of w']
    by (auto simp: g s cong: option.case_cong)
qed

lemma round_trip_components:
  assumes api: "cache_of cfg = simple_api"
      and t: "tracked_ok w0"
      and a: "getCachedQueryKeysToUpdate cfg n w0 = Inr keys"
      and u: "updateQueriesAfterMutation cfg operation n res (snd (addOptimisticRequest cfg n w0))
                = (Inr (), w2)"
      and k: "k \<in> set keys"
  shows "fst (revertOptimisticRequest cfg n w2) = Inr ()"
    and "map_of (results (store (snd (revertOptimisticRequest cfg n w2)))) k
           = map_of (results (store w0)) k"
    and "getBeforeState (ObjectKey k) (snd (revertOptimisticRequest cfg n w2)) = None"
proof -
  define w1 where "w1 = snd (addOptimisticRequest cfg n w0)"
  define names where "names = getRegisteredQueryNames (mutationQueryResolverMap cfg) n"
  have s1: "store w1 = store w0" and q1: "queriesToUpdate w1 = queriesToUpdate w0"
    by (simp_all add: w1_def)
  have t1: "tracked_ok w1"
    using t tracked_ok_cong [OF q1] by simp
  have keys1: "getCachedQueryKeysToUpdate cfg n w1 = Inr keys"
    using getCachedQueryKeysToUpdate_cong [OF q1, of cfg n] a by simp
  have rv1: "read_value cfg w1 x = read_value cfg w0 x" for x
    by (rule read_value_cong [OF s1])
  have snap: "getBeforeState (ObjectKey x) w1
      = (if x \<in> set keys then read_value cfg w0 x else getBeforeState (ObjectKey x) w0)" for x
    unfolding w1_def by (rule addOptimisticRequest_snapshot(2) [OF a])
  from updateQueriesAfterMutation_items [OF u [folded w1_def] keys1]
  obtain items w1' where
    run: "itemsToWrite cfg operation res keys [] w1 = (Inr items, w1')"
    and w2: "w2 = foldl (\<lambda>w3 item. write' cfg (fst item) (snd item) w3) w1' items"
    by blast
  have rem: "\<forall>x\<in>set keys. removable w1 x"
    using affected_removable [OF t1 keys1] by blast
  have own1: "own_keys q w1 = own_keys q w0" for q
    by (simp add: own_keys_def q1)
  from itemsToWrite_effect [OF t1 rem run]
  have g1: "\<And>q. own_keys q w1'
              = filter (\<lambda>x. \<not> (x \<in> set keys \<and> read_value cfg w0 x = None))
                  (own_keys q w0)"
    and it: "fst ` set items \<subseteq> {x \<in> set keys. read_value cfg w0 x \<noteq> None}"
    by (simp_all add: rv1 own1)
  from itemsToWrite_frameD [OF run]
  have s1': "store w1' = store w0" and i1': "inflightRequests w1' = inflightRequests w1"
    by (simp_all add: s1)
  have q2: "queriesToUpdate w2 = queriesToUpdate w1'"
    and i2: "inflightRequests w2 = inflightRequests w1"
    by (simp_all add: w2 i1')
  have own2: "own_keys q w2 = own_keys q w1'" for q
    by (simp add: own_keys_def q2)
  have e: "(map_of (queriesToUpdate w2) q = None) = (map_of (queriesToUpdate w0) q = None)" for q
    using itemsToWrite_entries [OF t1 rem run, of q] by (simp add: q2 q1)
  have k0: "keys = concat (map (\<lambda>q. own_keys q w0) names)"
    using getCachedQueryKeysToUpdate_concat [OF a] by (simp add: names_def)
  have "getCachedQueryKeysToUpdate cfg n w2
      = Inr (concat (map (\<lambda>q. filter (\<lambda>x. \<not> (x \<in> set keys \<and> read_value cfg w0 x = None))
                             (own_keys q w0)) names))"
    using getCachedQueryKeysToUpdate_stable [OF e a] by (simp add: names_def own2 g1)
  also have "concat (map (\<lambda>q. filter (\<lambda>x. \<not> (x \<in> set keys \<and> read_value cfg w0 x = None))
                             (own_keys q w0)) names)
      = filter (\<lambda>x. \<not> (x \<in> set keys \<and> read_value cfg w0 x = None)) keys"
    by (simp add: k0 filter_concat comp_def)
  also have "\<dots> = filter (\<lambda>x. read_value cfg w0 x \<noteq> None) keys"
    by (intro filter_cong) auto
  finally have keys2:
    "getCachedQueryKeysToUpdate cfg n w2 = Inr (filter (\<lambda>x. read_value cfg w0 x \<noteq> None) keys)" .
  have gb2: "getBeforeState x w2 = getBeforeState x w1" for x
    by (rule getBeforeState_cong [OF i2])
  have st2: "map_of (results (store w2)) x = map_of (results (store w0)) x"
    if "readOnly cfg \<or> read_value cfg w0 x = None" for x
  proof (cases "readOnly cfg")
    case True
    then show ?thesis by (simp add: w2 s1')
  next
    case False
    with that have "x \<notin> fst ` set items" using it by auto
    from foldl_write_simple_api [OF api this] show ?thesis by (simp add: w2 s1')
  qed
  note rl = revert_loop [OF api, of k
      "''Reverted an optimistic request after an error''"
      w2 "filter (\<lambda>x. read_value cfg w0 x \<noteq> None) keys"]
  have rev: "revertOptimisticRequest cfg n w2
      = (Inr (),
         foldl (\<lambda>w1 queryKey.
                  clearOptimisticRequest cfg (ObjectKey queryKey)
                    (case getBeforeState (ObjectKey queryKey) w1 of
                       Some previousCachedState \<Rightarrow>
                         debugLog cfg ''Reverted an optimistic request after an error''
                           (write' cfg queryKey previousCachedState w1)
                     | None \<Rightarrow> w1))
           w2 (filter (\<lambda>x. read_value cfg w0 x \<noteq> None) keys))"
    by (simp add: revertOptimisticRequest_def keys2)
  show "fst (revertOptimisticRequest cfg n w2) = Inr ()"
    by (simp add: rev)
  show "getBeforeState (ObjectKey k) (snd (revertOptimisticRequest cfg n w2)) = None"
    unfolding rev snd_conv using rl k by (auto simp: gb2 snap)
  show "map_of (results (store (snd (revertOptimisticRequest cfg n w2)))) k
           = map_of (results (store w0)) k"
  proof (cases "read_value cfg w0 k")
    case None
    then show ?thesis
      unfolding rev snd_conv using rl k st2 [of k] by simp
  next
    case (Some d)
    then have "map_of (results (store w0)) k = Some d"
      by (simp add: read_value_simple_api [OF api])
    with Some show ?thesis
      unfolding rev snd_conv using rl k st2 [of k] by (auto simp: gb2 snap)
  qed
qed

text \<open>
  C6: a watched optimistic mutation whose speculative update went through and whose
  result is a failure. On the store that keeps one payload per key, from a state that
  satisfies the tracker's invariant, the whole \<open>request\<close> returns the failure
  unchanged, every key that was affected when the mutation entered reads exactly as
  before the mutation, and \<open>getBeforeState\<close> of that key is absent afterwards.
\<close>

theorem optimistic_failure_round_trip:
  assumes "cache_of cfg = simple_api"
      and "tracked_ok w"
      and "getMainDefinition (op_query operation) = Inr defn"
      and "operation_of defn = Some OpMutation"
      and "isOptimistic (op_context operation)"
      and "isWatched (mutationQueryResolverMap cfg) (operationName_of defn)"
      and "fst (request_enter cfg operation w) = Inr ()"
      and "getCachedQueryKeysToUpdate cfg (operationName_of defn) w = Inr keys"
      and "k \<in> set keys"
  shows "fst (request cfg operation (Failed payload) w) = Inr (Failed payload)
     \<and> cache_readQuery simple_api (store (snd (request cfg operation (Failed payload) w))) k
         = cache_readQuery simple_api (store w) k
     \<and> getBeforeState (ObjectKey k) (snd (request cfg operation (Failed payload) w)) = None"
proof -
  define n where "n = operationName_of defn"
  define w2 where "w2 = snd (request_enter cfg operation w)"
  define w3 where "w3 = snd (revertOptimisticRequest cfg n w2)"
  note ks = assms(8) [folded n_def]
  note ad = addOptimisticRequest_snapshot(1) [OF ks]
  have e: "request_enter cfg operation w
      = updateQueriesAfterMutation cfg operation n
          (JObj [(''data'', optimisticResponse (op_context operation))])
          (snd (addOptimisticRequest cfg n w))"
    using assms(3,5,6)
    by (simp add: request_enter_def Let_def n_def [symmetric] case_prod_unfold ad)
  have e2: "request_enter cfg operation w = (Inr (), w2)"
    using assms(7) by (simp add: w2_def prod_eq_iff)
  note c = round_trip_components [OF assms(1,2) ks e2 [unfolded e] assms(9)]
  have rv: "revertOptimisticRequest cfg n w2 = (Inr (), w3)"
    using c(1) by (simp add: w3_def prod_eq_iff)
  have r: "request_result cfg operation (Failed payload) w2 = (Inr (Failed payload), w3)"
    using assms(3,4,5,6) rv
    by (simp add: request_result_def Let_def n_def [symmetric] isSuccessfulQuery_def
          isSuccessfulMutation_def isFailedMutation_def isSuccessful_def)
  have rq: "request cfg operation (Failed payload) w = (Inr (Failed payload), w3)"
    by (simp add: request_def e2 r)
  have rd: "cache_readQuery simple_api s k
      = (case map_of (results s) k of None \<Rightarrow> Inl StoreFailure | Some d \<Rightarrow> Inr (Some d))"
    for s by (simp add: simple_api_def)
  have "cache_readQuery simple_api (store w3) k = cache_readQuery simple_api (store w) k"
    unfolding rd w3_def c(2) by (rule refl)
  with c(3) [folded w3_def] show ?thesis by (simp only: rq fst_conv snd_conv simp_thms)
qed

theorem optimistic_failure_round_trip_witness:
  "cache_of demo_cfg = simple_api
   \<and> tracked_ok w_tracked
   \<and> fst (request_enter demo_cfg addItem_operation w_tracked) = Inr ()
   \<and> getCachedQueryKeysToUpdate demo_cfg ''AddItem'' w_tracked = Inr [listItems_key]
   \<and> cache_readQuery simple_api (store w_optimistic) listItems_key
       = Inr (Some [(''items'', JArr [JStr ''A'', JStr ''B''])])
   \<and> cache_readQuery simple_api (store w_tracked) listItems_key
       = Inr (Some [(''items'', JArr [JStr ''A''])])
   \<and> cache_readQuery simple_api
         (store (snd (request demo_cfg addItem_operation (Failed JNull) w_tracked))) listItems_key
       = Inr (Some [(''items'', JArr [JStr ''A''])])
   \<and> getBeforeState (ObjectKey listItems_key)
         (snd (request demo_cfg addItem_operation (Failed JNull) w_tracked)) = None"
proof -
  have a: "cache_of demo_cfg = simple_api" by (simp add: demo_cfg_def)
  have t: "tracked_ok w_tracked" by code_simp
  have d: "getMainDefinition (op_query addItem_operation)
      = Inr (OperationDefinition OpMutation (Some ''AddItem'') [Field ''addItem'' [] []])"
    by code_simp
  have m: "operation_of (OperationDefinition OpMutation (Some ''AddItem'') [Field ''addItem'' [] []])
      = Some OpMutation"
    by code_simp
  have n: "operationName_of (OperationDefinition OpMutation (Some ''AddItem'') [Field ''addItem'' [] []])
      = ''AddItem''"
    by code_simp
  have o: "isOptimistic (op_context addItem_operation)" by code_simp
  have i: "isWatched (mutationQueryResolverMap demo_cfg)
      (operationName_of (OperationDefinition OpMutation (Some ''AddItem'') [Field ''addItem'' [] []]))"
    by code_simp
  have e: "fst (request_enter demo_cfg addItem_operation w_tracked) = Inr ()" by code_simp
  have ks: "getCachedQueryKeysToUpdate demo_cfg
      (operationName_of (OperationDefinition OpMutation (Some ''AddItem'') [Field ''addItem'' [] []]))
      w_tracked = Inr [listItems_key]"
    by code_simp
  have k: "listItems_key \<in> set [listItems_key]" by simp
  have s0: "cache_readQuery simple_api (store w_tracked) listItems_key
       = Inr (Some [(''items'', JArr [JStr ''A''])])"
    by code_simp
  have s1: "cache_readQuery simple_api (store w_optimistic) listItems_key
       = Inr (Some [(''items'', JArr [JStr ''A'', JStr ''B''])])"
    by code_simp
  from optimistic_failure_round_trip [OF a t d m o i e ks k, of JNull] a t e ks s0 s1
  show ?thesis by (simp add: n)
qed

subsection \<open>The tracker invariant in reachable states\<close>

text \<open>
  The invariant holds for an empty tracker and every \<open>request\<close> preserves it, whether
  it returns or throws: it holds in every state the link reaches.
\<close>

lemma tracked_ok_initial: "queriesToUpdate w = [] \<Longrightarrow> tracked_ok w"
  by (simp add: tracked_ok_def)

lemma getUpdateAfterMutation_tracked_ok:
  assumes "tracked_ok w"
  shows "tracked_ok (snd (getUpdateAfterMutation cfg operation res k w))"
proof (cases "getQueryName (key_query k)")
  case (Inl e)
  with assms show ?thesis by (simp add: getUpdateAfterMutation_def)
next
  case (Inr n)
  show ?thesis
  proof (cases "fst (read cfg k w)")
    case None
    then have rd: "read cfg k w = (None, snd (read cfg k w))"
      by (simp add: prod_eq_iff)
    have "tracked_ok (snd (removeQuery False n k (snd (read cfg k w))))"
      by (rule removeQuery_tracked_ok) (simp add: assms)
    then show ?thesis
      unfolding getUpdateAfterMutation_def Inr
      by (subst rd) (simp add: removeRelatedQuery_def case_prod_unfold split: sum.splits)
  next
    case (Some d)
    then have "read_value cfg w k = Some d" by (simp add: read_value_def)
    from getUpdateAfterMutation_present(1) [OF this] assms show ?thesis by simp
  qed
qed

lemma itemsToWrite_tracked_ok:
  "tracked_ok w \<Longrightarrow> tracked_ok (snd (itemsToWrite cfg operation res keys items w))"
proof (induction keys arbitrary: items w)
  case Nil
  then show ?case by simp
next
  case (Cons k keys)
  define p where
    "p = getUpdateAfterMutation cfg operation res k
           (debugLog cfg
              ''Found a cached query related to this successful mutation, this Link will invoke the associated callback''
              w)"
  have tp: "tracked_ok (snd p)"
    unfolding p_def by (rule getUpdateAfterMutation_tracked_ok) (simp add: Cons.prems)
  have "itemsToWrite cfg operation res (k # keys) items w
      = (case fst p of
           Inl e \<Rightarrow> (Inl e, snd p)
         | Inr None \<Rightarrow>
             itemsToWrite cfg operation res keys items
               (debugLog cfg
                  ''We did NOT receive anything new to write to the cache so we will not do anything''
                  (snd p))
         | Inr (Some resultToWrite) \<Rightarrow>
             itemsToWrite cfg operation res keys (items @ [resultToWrite]) (snd p))"
    by (simp add: p_def case_prod_unfold split: sum.splits option.splits)
  then show ?case
    using tp Cons.IH by (simp split: sum.splits option.splits)
qed

lemma updateQueriesAfterMutation_tracked_ok:
  assumes "tracked_ok w"
  shows "tracked_ok (snd (updateQueriesAfterMutation cfg operation n res w))"
proof (cases "getCachedQueryKeysToUpdate cfg n w")
  case (Inl e)
  with assms show ?thesis by (simp add: updateQueriesAfterMutation_def)
next
  case (Inr keys)
  define p where "p = itemsToWrite cfg operation res keys [] w"
  have tp: "tracked_ok (snd p)"
    unfolding p_def by (rule itemsToWrite_tracked_ok [OF assms])
  have q: "queriesToUpdate (foldl (\<lambda>w3 item. write' cfg (fst item) (snd item) w3) (snd p) items)
      = queriesToUpdate (snd p)" for items
    by simp
  have "snd (updateQueriesAfterMutation cfg operation n res w)
      = (case fst p of
           Inl e \<Rightarrow> snd p
         | Inr items \<Rightarrow> foldl (\<lambda>w3 item. write' cfg (fst item) (snd item) w3) (snd p) items)"
    by (simp add: updateQueriesAfterMutation_def Inr performTransaction_def p_def
          case_prod_unfold split: sum.splits)
  then show ?thesis
    using tp tracked_ok_cong [OF q] by (simp split: sum.splits)
qed

lemma revertOptimisticRequest_queriesToUpdate [simp]:
  "queriesToUpdate (snd (revertOptimisticRequest cfg n w)) = queriesToUpdate w"
proof -
  have "queriesToUpdate
          (foldl (\<lambda>w1 queryKey.
                    clearOptimisticRequest cfg (ObjectKey queryKey)
                      (case getBeforeState (ObjectKey queryKey) w1 of
                         Some previousCachedState \<Rightarrow>
                           debugLog cfg m (write' cfg queryKey previousCachedState w1)
                       | None \<Rightarrow> w1))
             w keys) = queriesToUpdate w" for keys m
    by (induction keys arbitrary: w) (simp_all split: option.splits)
  then show ?thesis by (simp add: revertOptimisticRequest_def split: sum.splits)
qed

lemma request_enter_tracked_ok:
  assumes "tracked_ok w"
  shows "tracked_ok (snd (request_enter cfg operation w))"
proof -
  have a: "tracked_ok (snd (addOptimisticRequest cfg n w))" for n
    using assms tracked_ok_cong [of "snd (addOptimisticRequest cfg n w)" w] by simp
  have "tracked_ok (snd (updateQueriesAfterMutation cfg operation n res
                           (snd (addOptimisticRequest cfg n w))))" for n res
    by (rule updateQueriesAfterMutation_tracked_ok [OF a])
  with a show ?thesis
    using assms
    by (simp add: request_enter_def Let_def case_prod_unfold split: sum.splits)
qed

lemma request_result_tracked_ok:
  assumes "tracked_ok w"
  shows "tracked_ok (snd (request_result cfg operation result w))"
proof (cases "getMainDefinition (op_query operation)")
  case (Inl e)
  with assms show ?thesis by (simp add: request_result_def)
next
  case (Inr defn)
  have n: "getQueryName (key_query (createKey operation)) = Inr (operationName_of defn)"
    by (simp add: createKey_def getQueryName_def Inr)
  have a: "tracked_ok (snd (addRelatedQuery cfg (operationName_of defn) operation
                              (debugLog cfg m w)))"
    for m
    unfolding addRelatedQuery_def by (rule addQuery_tracked_ok) (simp_all add: assms n)
  have c: "tracked_ok (clearOptimisticRequest cfg x w)" for x
    using assms tracked_ok_cong [of "clearOptimisticRequest cfg x w" w] by simp
  have r: "tracked_ok (snd (revertOptimisticRequest cfg m w))" for m
    using assms tracked_ok_cong [of "snd (revertOptimisticRequest cfg m w)" w] by simp
  note u = updateQueriesAfterMutation_tracked_ok [OF assms, of cfg operation
      "operationName_of defn" "result_payload result"]
  from Inr a c r u assms show ?thesis
    by (simp add: request_result_def Let_def case_prod_unfold split: sum.splits)
qed

lemma request_tracked_ok:
  assumes "tracked_ok w"
  shows "tracked_ok (snd (request cfg operation result w))"
  using request_enter_tracked_ok [OF assms, of cfg operation]
    request_result_tracked_ok [of "snd (request_enter cfg operation w)" cfg operation result]
  by (simp add: request_def case_prod_unfold split: sum.splits)

subsection \<open>The defects, for every input\<close>

text \<open>
  \<open>removeQuery\<close> throws for every name without an entry; the eviction loop calls the
  store no more once \<open>evicted\<close> is true; \<open>evict\<close> throws for every key when the debug
  flag is on and the read-only flag is off, while the flag changes neither what \<open>read\<close>
  returns nor the store that \<open>write\<close> and \<open>gc\<close> leave; and the success path of an
  optimistic mutation leaves the snapshot of every cache key as it was.
\<close>

lemma removeQuery_untracked:
  "map_of (queriesToUpdate w) n = None \<Longrightarrow> removeQuery dbg n k w = (Inl TypeError, w)"
  by (simp add: removeQuery_def getQueryKeysToUpdate_def Let_def)

lemma evict_each_after_true: "evict_each api cacheIds True s = (Inr True, s)"
  by (induction cacheIds) simp_all

lemma evict_debug_always_throws:
  "\<not> readOnly cfg \<Longrightarrow> debug cfg \<Longrightarrow> fst (evict cfg key w) = Inl ReferenceError"
  by (simp add: evict_def evict_try_def case_prod_unfold split: sum.splits)

lemma read_debug: "fst (read (cfg\<lparr>debug := b\<rparr>) k w) = fst (read cfg k w)"
  by (simp add: read_def split: sum.splits)

lemma write_debug: "store (write' (cfg\<lparr>debug := b\<rparr>) k d w) = store (write' cfg k d w)"
  by (simp add: write'_def case_prod_unfold split: option.splits)

lemma gc_debug: "store (gc (cfg\<lparr>debug := b\<rparr>) w) = store (gc cfg w)"
  by (simp add: gc_def case_prod_unfold split: option.splits)

lemma optimistic_success_keeps_snapshots:
  assumes "getMainDefinition (op_query operation) = Inr defn"
      and "operation_of defn = Some OpMutation"
      and "isOptimistic (op_context operation)"
  shows "getBeforeState (ObjectKey k) (snd (request_result cfg operation (Succeeded payload) w))
           = getBeforeState (ObjectKey k) w"
  using assms
  by (simp add: request_result_def Let_def isSuccessfulQuery_def isSuccessfulMutation_def
        isFailedMutation_def isSuccessful_def)

subsection \<open>Names inherited from the prototype of the tracker object\<close>

text \<open>
  For a name that has no entry of its own and that \<open>Object.prototype\<close> defines, the
  lookup yields the inherited value: \<open>addQuery\<close> and \<open>getCachedQueryKeysToUpdate\<close>
  throw. For every other name \<open>addQuery\<close> returns.
\<close>

lemma addQuery_inherited_throws:
  "map_of (queriesToUpdate w) n = None \<Longrightarrow> n \<in> set object_prototype_names \<Longrightarrow>
   addQuery dbg n k w = (Inl TypeError, w)"
  by (simp add: addQuery_def getQueryKeysToUpdate_def)

lemma addQuery_returns:
  "map_of (queriesToUpdate w) n \<noteq> None \<or> n \<notin> set object_prototype_names \<Longrightarrow>
   fst (addQuery dbg n k w) = Inr ()"
  by (auto simp: addQuery_def getQueryKeysToUpdate_def Let_def split: option.splits)

lemma getCachedQueryKeysToUpdate_inherited_throws:
  assumes "q \<in> set (getRegisteredQueryNames (mutationQueryResolverMap cfg) n)"
      and "map_of (queriesToUpdate w) q = None"
      and "q \<in> set object_prototype_names"
  shows "getCachedQueryKeysToUpdate cfg n w = Inl TypeError"
proof -
  from assms(2,3) have "getQueryKeysToUpdate q w \<noteq> Keys (own_keys q w)"
    by (simp add: getQueryKeysToUpdate_def)
  with assms(1) show ?thesis
    unfolding getCachedQueryKeysToUpdate_eq by auto
qed

end
